theory Spec2Isabelle
  imports Main
begin

section \<open>JavaScript strings\<close>

text \<open>
  A JavaScript string is modelled as a HOL \<open>string\<close>; one \<open>char\<close> stands for one
  code unit in the range 0..255 (Latin-1). Only the string operations the sources call
  are modelled: \<open>split\<close> and \<open>join\<close> with a separator, \<open>trim\<close>,
  \<open>toLowerCase\<close>, \<open>includes\<close>, \<open>replace(/"/g, '""')\<close> and the decimal
  rendering of an integer.
\<close>

definition js_whitespace :: "char \<Rightarrow> bool" where
  "js_whitespace c =
     (c = CHR 0x09 \<or> c = CHR 0x0A \<or> c = CHR 0x0B \<or> c = CHR 0x0C \<or> c = CHR 0x0D
      \<or> c = CHR 0x20 \<or> c = CHR 0xA0)"

definition trim :: "string \<Rightarrow> string" where
  "trim s = rev (dropWhile js_whitespace (rev (dropWhile js_whitespace s)))"

definition lower_char :: "char \<Rightarrow> char" where
  "lower_char c =
     (let n = (of_char c :: nat) in
      if (65 \<le> n \<and> n \<le> 90) \<or> (192 \<le> n \<and> n \<le> 222 \<and> n \<noteq> 215)
      then char_of (n + 32) else c)"

definition toLowerCase :: "string \<Rightarrow> string" where
  "toLowerCase s = map lower_char s"

text \<open>\<open>s.split(sep)\<close> for a one-character separator: never empty, \<open>''.split(sep) = ['']\<close>.\<close>

fun split_on :: "char \<Rightarrow> string \<Rightarrow> string list" where
  "split_on sep [] = [[]]"
| "split_on sep (c # cs) =
     (if c = sep then [] # split_on sep cs
      else (let r = split_on sep cs in (c # hd r) # tl r))"

fun join :: "string \<Rightarrow> string list \<Rightarrow> string" where
  "join sep [] = []"
| "join sep [x] = x"
| "join sep (x # y # ys) = x @ sep @ join sep (y # ys)"

definition digit_char :: "nat \<Rightarrow> char" where
  "digit_char d = char_of (48 + d)"

fun show_nat :: "nat \<Rightarrow> string" where
  "show_nat n = (if n < 10 then [digit_char n] else show_nat (n div 10) @ [digit_char (n mod 10)])"

declare show_nat.simps [simp del]

definition show_int :: "int \<Rightarrow> string" where
  "show_int i = (if i < 0 then CHR ''-'' # show_nat (nat (- i)) else show_nat (nat i))"

text \<open>The value of a string of decimal digits.\<close>

definition is_digit :: "char \<Rightarrow> bool" where
  "is_digit c = (48 \<le> (of_char c :: nat) \<and> (of_char c :: nat) \<le> 57)"

definition digits_value :: "string \<Rightarrow> nat" where
  "digits_value ds = foldl (\<lambda>acc c. 10 * acc + ((of_char c :: nat) - 48)) 0 ds"

section \<open>Documents\<close>

text \<open>
  The type \<open>Document\<close> of the sources is \<open>{ [key: string]: any }\<close>; at run time a
  document is whatever \<open>JSON.parse\<close> or the YAML library returned. Values are modelled
  as JSON values, numbers restricted to integers. \<open>JObj kvs\<close> lists the own enumerable
  properties of an object in property order; a well-formed object has distinct keys.
  The prototype chain is not modelled.
\<close>

datatype json =
    JNull
  | JBool bool
  | JNum int
  | JStr string
  | JArr "json list"
  | JObj "(string \<times> json) list"

text \<open>
  Property order of an ordinary object: the names that are array indices (the canonical
  decimal numeral of an integer below \<open>2^32 - 1\<close>) come first, in ascending numeric
  order; the other names follow in the order in which they were added.
  \<open>placed_before k k'\<close>: a new property \<open>k\<close> goes in front of the property \<open>k'\<close>.
\<close>

definition index_value :: "string \<Rightarrow> int" where
  "index_value ds = foldl (\<lambda>acc c. 10 * acc + (of_char c - 48)) 0 ds"

definition is_array_index :: "string \<Rightarrow> bool" where
  "is_array_index k =
     (k \<noteq> [] \<and> list_all is_digit k \<and> (length k = 1 \<or> hd k \<noteq> CHR ''0'')
      \<and> index_value k < 4294967295)"

definition placed_before :: "string \<Rightarrow> string \<Rightarrow> bool" where
  "placed_before k k' =
     (is_array_index k \<and> (\<not> is_array_index k' \<or> index_value k < index_value k'))"

fun obj_insert :: "string \<Rightarrow> json \<Rightarrow> (string \<times> json) list \<Rightarrow> (string \<times> json) list" where
  "obj_insert k v [] = [(k, v)]"
| "obj_insert k v ((k', v') # kvs) =
     (if placed_before k k' then (k, v) # (k', v') # kvs else (k', v') # obj_insert k v kvs)"

fun property_ordered :: "string list \<Rightarrow> bool" where
  "property_ordered [] = True"
| "property_ordered (k # ks) = (list_all (\<lambda>k'. \<not> placed_before k' k) ks \<and> property_ordered ks)"

text \<open>
  Defining an own property, as an object literal with a computed name, a spread and
  \<open>JSON.parse\<close> do: an existing property keeps its place and takes the value, a new
  one is added in property order.
\<close>

definition obj_define :: "string \<Rightarrow> json \<Rightarrow> (string \<times> json) list \<Rightarrow> (string \<times> json) list" where
  "obj_define k v kvs =
     (if k \<in> set (map fst kvs)
      then map (\<lambda>(k', v'). if k' = k then (k', v) else (k', v')) kvs
      else obj_insert k v kvs)"

text \<open>
  Assignment \<open>obj[k] = v\<close> on an object made by \<open>{}\<close>. Unless the object has an
  own property of that name, \<open>__proto__\<close> is the accessor inherited from
  \<open>Object.prototype\<close>: the assignment then adds no property (it replaces the
  prototype when \<open>v\<close> is an object or \<open>null\<close>, and does nothing otherwise).
  Every other name is defined as an own property.
\<close>

definition obj_set :: "string \<Rightarrow> json \<Rightarrow> (string \<times> json) list \<Rightarrow> (string \<times> json) list" where
  "obj_set k v kvs =
     (if k = ''__proto__'' \<and> k \<notin> set (map fst kvs) then kvs else obj_define k v kvs)"

text \<open>
  \<open>Object.entries(x)\<close> and the spread \<open>{...x}\<close>: the own enumerable string-keyed
  properties. Arrays and strings expose their indices; numbers and booleans nothing.
  (\<open>Object.entries(null)\<close> throws; the callers below test for \<open>JNull\<close> first.)
\<close>

fun own_entries :: "json \<Rightarrow> (string \<times> json) list" where
  "own_entries (JObj kvs) = kvs"
| "own_entries (JArr xs) = zip (map show_nat [0..<length xs]) xs"
| "own_entries (JStr s) = zip (map show_nat [0..<length s]) (map (\<lambda>c. JStr [c]) s)"
| "own_entries _ = []"

text \<open>Field-order-insensitive equality of two documents: the same fields with the same values.\<close>

definition same_fields :: "json \<Rightarrow> json \<Rightarrow> bool" where
  "same_fields a b =
     (case (a, b) of
        (JObj xs, JObj ys) \<Rightarrow>
          list_all (\<lambda>k. map_of xs k = map_of ys k) (map fst xs @ map fst ys)
      | _ \<Rightarrow> a = b)"

definition same_documents :: "json list \<Rightarrow> json list \<Rightarrow> bool" where
  "same_documents xs ys = list_all2 same_fields xs ys"

section \<open>Platform\<close>

text \<open>
  \<open>JSON.parse\<close>, \<open>JSON.stringify\<close>, the \<open>yaml\<close> package and the clock are not code of
  the repository. Every function that calls one of them takes them as a parameter, the
  record \<open>platform\<close>. A failing call returns \<open>Inl\<close> with the message of the exception.
  \<open>JSON_stringify n v\<close> is \<open>JSON.stringify(v, null, n)\<close>; \<open>JSON.stringify(v)\<close> is
  \<open>JSON_stringify 0 v\<close>. \<open>yaml_parseAllDocuments\<close> returns, for each document of the
  stream, its error messages and its value (\<open>doc.errors\<close>, \<open>doc.toJSON()\<close>).
  \<open>now_iso\<close> is \<open>new Date().toISOString()\<close>, read once for a whole call.
\<close>

record platform =
  JSON_parse :: "string \<Rightarrow> string + json"
  JSON_stringify :: "nat \<Rightarrow> json \<Rightarrow> string"
  yaml_parse :: "string \<Rightarrow> string + json"
  yaml_parseAllDocuments :: "string \<Rightarrow> (string list \<times> json) list"
  yaml_stringify :: "nat \<Rightarrow> json \<Rightarrow> string + string"
  now_iso :: string

section \<open>Errors\<close>

text \<open>Every \<open>throw\<close> of the modelled sources is one constructor; a wrapped error keeps its cause.\<close>

datatype error =
    UnsupportedFormat string
  | InvalidJSON string
  | InvalidJSONL nat string
  | InvalidYAML string
  | YAMLSerializeFailed string
  | TypeError
  | TransactionInProgress string
  | SourceDoesNotExist string
  | SourceFileNotFound string
  | TransferFailed error
  | GetFileFailed string
  | CreateFileFailed string
  | UpdateFileFailed string

section \<open>Format detection (FormatConverter.detectFormat)\<close>

definition detectFormat :: "string \<Rightarrow> string" where
  "detectFormat filename =
     (let extension = toLowerCase (last (split_on CHR ''.'' filename)) in
      if extension = ''json'' then ''json''
      else if extension = ''jsonl'' then ''jsonl''
      else if extension = ''csv'' then ''csv''
      else if extension = ''yaml'' \<or> extension = ''yml'' then ''yaml''
      else ''json'')"

section \<open>Codecs (formatters)\<close>

text \<open>Sequencing of computations that may throw.\<close>

definition and_then :: "error + 'a \<Rightarrow> ('a \<Rightarrow> error + 'b) \<Rightarrow> error + 'b" where
  "and_then r f = (case r of Inl e \<Rightarrow> Inl e | Inr x \<Rightarrow> f x)"

text \<open>\<open>xs.map(f)\<close> where \<open>f\<close> may throw: the first failure, in order, aborts the map.\<close>

fun map_throwing :: "('a \<Rightarrow> error + 'b) \<Rightarrow> 'a list \<Rightarrow> error + 'b list" where
  "map_throwing f [] = Inr []"
| "map_throwing f (x # xs) =
     (case f x of
        Inl e \<Rightarrow> Inl e
      | Inr y \<Rightarrow> (case map_throwing f xs of Inl e \<Rightarrow> Inl e | Inr ys \<Rightarrow> Inr (y # ys)))"

subsection \<open>JSONFormatter: one whole-document blob, an object or an array\<close>

definition JSONFormatter_parse :: "platform \<Rightarrow> string \<Rightarrow> error + json list" where
  "JSONFormatter_parse P content =
     (if trim content = [] then Inr []
      else (case JSON_parse P content of
              Inl m \<Rightarrow> Inl (InvalidJSON m)
            | Inr parsed \<Rightarrow> Inr (case parsed of JArr xs \<Rightarrow> xs | _ \<Rightarrow> [parsed])))"

definition JSONFormatter_serialize :: "platform \<Rightarrow> nat option \<Rightarrow> json list \<Rightarrow> error + string" where
  "JSONFormatter_serialize P indent_opt documents =
     (let indent = (case indent_opt of Some n \<Rightarrow> n | None \<Rightarrow> 2);
          data = (case documents of [d] \<Rightarrow> d | _ \<Rightarrow> JArr documents)
      in Inr (JSON_stringify P indent data))"

subsection \<open>JSONLFormatter: one document per line\<close>

fun parse_jsonl_lines :: "platform \<Rightarrow> nat \<Rightarrow> string list \<Rightarrow> error + json list" where
  "parse_jsonl_lines P index [] = Inr []"
| "parse_jsonl_lines P index (line # rest) =
     (case JSON_parse P line of
        Inl m \<Rightarrow> Inl (InvalidJSONL (index + 1) m)
      | Inr v \<Rightarrow>
          (case parse_jsonl_lines P (index + 1) rest of
             Inl e \<Rightarrow> Inl e
           | Inr vs \<Rightarrow> Inr (v # vs)))"

definition nonblank_lines :: "string \<Rightarrow> string list" where
  "nonblank_lines content = filter (\<lambda>line. trim line \<noteq> []) (split_on CHR 0x0A content)"

definition JSONLFormatter_parse :: "platform \<Rightarrow> string \<Rightarrow> error + json list" where
  "JSONLFormatter_parse P content =
     (if trim content = [] then Inr []
      else parse_jsonl_lines P 0 (nonblank_lines content))"

definition JSONLFormatter_serialize :: "platform \<Rightarrow> nat option \<Rightarrow> json list \<Rightarrow> error + string" where
  "JSONLFormatter_serialize P indent_opt documents =
     Inr (join [CHR 0x0A] (map (JSON_stringify P 0) documents)
          @ (if length documents > 0 then [CHR 0x0A] else []))"

subsection \<open>CSVFormatter: header row, comma-separated rows\<close>

fun parseCSVLine_loop :: "string \<Rightarrow> string list \<Rightarrow> string \<Rightarrow> bool \<Rightarrow> string list" where
  "parseCSVLine_loop [] result current inQuotes = result @ [current]"
| "parseCSVLine_loop (char # rest) result current inQuotes =
     (if char = CHR 0x22 then parseCSVLine_loop rest result current (\<not> inQuotes)
      else if char = CHR '','' \<and> \<not> inQuotes then parseCSVLine_loop rest (result @ [current]) [] inQuotes
      else parseCSVLine_loop rest result (current @ [char]) inQuotes)"

definition parseCSVLine :: "string \<Rightarrow> string list" where
  "parseCSVLine line = map trim (parseCSVLine_loop line [] [] False)"

text \<open>\<open>headers.forEach((header, i) => document[header] = values[i] || '')\<close>.\<close>

definition csv_document :: "string list \<Rightarrow> string list \<Rightarrow> json" where
  "csv_document headers vals =
     JObj (fold (\<lambda>(header, i) document.
                   obj_set header (JStr (if i < length vals then vals ! i else [])) document)
                (zip headers [0..<length headers]) [])"

definition CSVFormatter_parse :: "string \<Rightarrow> error + json list" where
  "CSVFormatter_parse content =
     (if trim content = [] then Inr []
      else (let lines = nonblank_lines content in
            if length lines < 2 then Inr []
            else (let headers = parseCSVLine (hd lines) in
                  Inr (map (\<lambda>line. csv_document headers (parseCSVLine line)) (tl lines)))))"

definition escapeCSV :: "string \<Rightarrow> string" where
  "escapeCSV v =
     (if CHR '','' \<in> set v \<or> CHR 0x22 \<in> set v \<or> CHR 0x0A \<in> set v
      then [CHR 0x22] @ concat (map (\<lambda>c. if c = CHR 0x22 then [CHR 0x22, CHR 0x22] else [c]) v) @ [CHR 0x22]
      else v)"

text \<open>
  \<open>Object.keys(doc)\<close> throws on \<open>null\<close>. \<open>doc[header]\<close> reads an own property
  (inherited properties such as \<open>toString\<close>, and \<open>length\<close> of arrays and strings, are
  outside the model).
\<close>

definition object_keys :: "json \<Rightarrow> error + string list" where
  "object_keys d = (case d of JNull \<Rightarrow> Inl TypeError | _ \<Rightarrow> Inr (map fst (own_entries d)))"

definition get_property :: "json \<Rightarrow> string \<Rightarrow> json option" where
  "get_property d k = map_of (own_entries d) k"

text \<open>\<open>v.toString()\<close> for a value that is neither \<open>null\<close> nor \<open>undefined\<close>.\<close>

fun js_toString :: "json \<Rightarrow> string" where
  "js_toString (JStr s) = s"
| "js_toString (JNum n) = show_int n"
| "js_toString (JBool b) = (if b then ''true'' else ''false'')"
| "js_toString (JArr xs) = join '','' (map (\<lambda>x. if x = JNull then [] else js_toString x) xs)"
| "js_toString (JObj kvs) = ''[object Object]''"
| "js_toString JNull = []"

text \<open>\<open>doc[header]?.toString() || ''\<close>.\<close>

definition csv_cell :: "json \<Rightarrow> string \<Rightarrow> string" where
  "csv_cell doc header =
     (case get_property doc header of
        None \<Rightarrow> []
      | Some v \<Rightarrow> js_toString v)"

text \<open>\<open>Array.from(new Set(xs))\<close>: the first occurrence of each element, in order.\<close>

definition unique_in_order :: "string list \<Rightarrow> string list" where
  "unique_in_order xs = fold (\<lambda>x seen. if x \<in> set seen then seen else seen @ [x]) xs []"

definition CSVFormatter_serialize :: "nat option \<Rightarrow> json list \<Rightarrow> error + string" where
  "CSVFormatter_serialize indent_opt documents =
     (if length documents = 0 then Inr []
      else and_then (map_throwing object_keys documents) (\<lambda>keys.
             let headers = unique_in_order (concat keys);
                 lines = join '','' (map escapeCSV headers)
                         # map (\<lambda>doc. join '','' (map (\<lambda>header. escapeCSV (csv_cell doc header)) headers))
                               documents
             in Inr (join [CHR 0x0A] lines @ [CHR 0x0A])))"

subsection \<open>YAMLFormatter: documents separated by a boundary marker\<close>

definition yaml_document_value :: "string list \<times> json \<Rightarrow> error + json" where
  "yaml_document_value doc =
     (case fst doc of [] \<Rightarrow> Inr (snd doc) | m # _ \<Rightarrow> Inl (InvalidYAML m))"

definition YAMLFormatter_parse :: "platform \<Rightarrow> string \<Rightarrow> error + json list" where
  "YAMLFormatter_parse P content =
     (if trim content = [] then Inr []
      else (case yaml_parse P content of
              Inr singleDoc \<Rightarrow> Inr (case singleDoc of JArr xs \<Rightarrow> xs | _ \<Rightarrow> [singleDoc])
            | Inl e \<Rightarrow> map_throwing yaml_document_value (yaml_parseAllDocuments P content)))"

definition yaml_stringify_trimmed :: "platform \<Rightarrow> nat \<Rightarrow> json \<Rightarrow> error + string" where
  "yaml_stringify_trimmed P indent doc =
     (case yaml_stringify P indent doc of
        Inl m \<Rightarrow> Inl (YAMLSerializeFailed m)
      | Inr s \<Rightarrow> Inr (trim s))"

definition YAMLFormatter_serialize :: "platform \<Rightarrow> nat option \<Rightarrow> json list \<Rightarrow> error + string" where
  "YAMLFormatter_serialize P indent_opt documents =
     (let indent = (case indent_opt of Some n \<Rightarrow> n | None \<Rightarrow> 2) in
      if length documents = 0 then Inr []
      else if length documents = 1 then yaml_stringify_trimmed P indent (hd documents)
      else and_then (map_throwing (yaml_stringify_trimmed P indent) documents) (\<lambda>parts.
             Inr (join [CHR 0x0A, CHR ''-'', CHR ''-'', CHR ''-'', CHR 0x0A] parts)))"

subsection \<open>The registry (FormatConverter.getFormatter)\<close>

datatype formatter = JSONFormatter | JSONLFormatter | CSVFormatter | YAMLFormatter

definition getFormatter :: "string \<Rightarrow> error + formatter" where
  "getFormatter format =
     (if format = ''json'' then Inr JSONFormatter
      else if format = ''jsonl'' then Inr JSONLFormatter
      else if format = ''csv'' then Inr CSVFormatter
      else if format = ''yaml'' then Inr YAMLFormatter
      else Inl (UnsupportedFormat format))"

fun formatter_parse :: "platform \<Rightarrow> formatter \<Rightarrow> string \<Rightarrow> error + json list" where
  "formatter_parse P JSONFormatter content = JSONFormatter_parse P content"
| "formatter_parse P JSONLFormatter content = JSONLFormatter_parse P content"
| "formatter_parse P CSVFormatter content = CSVFormatter_parse content"
| "formatter_parse P YAMLFormatter content = YAMLFormatter_parse P content"

fun formatter_serialize :: "platform \<Rightarrow> formatter \<Rightarrow> nat option \<Rightarrow> json list \<Rightarrow> error + string" where
  "formatter_serialize P JSONFormatter indent_opt documents = JSONFormatter_serialize P indent_opt documents"
| "formatter_serialize P JSONLFormatter indent_opt documents = JSONLFormatter_serialize P indent_opt documents"
| "formatter_serialize P CSVFormatter indent_opt documents = CSVFormatter_serialize indent_opt documents"
| "formatter_serialize P YAMLFormatter indent_opt documents = YAMLFormatter_serialize P indent_opt documents"


section \<open>The conversion pipeline (FormatConverter)\<close>

record conversion_options =
  indent :: "nat option"
  timestampField :: "string option"
  sourceFormat :: string
  targetFormat :: string
  fieldMapping :: "(string \<times> string) list option"
  conv_filter :: "(json \<Rightarrow> bool) option"
  conv_transform :: "(json \<Rightarrow> json) option"

text \<open>
  \<open>applyFieldMapping\<close>: the mapping lists \<open>(newField, oldField)\<close>. \<open>oldField in doc\<close>
  throws on a primitive, \<open>Object.entries(doc)\<close> throws on \<open>null\<close>.
\<close>

definition is_primitive :: "json \<Rightarrow> bool" where
  "is_primitive d = (case d of JObj _ \<Rightarrow> False | JArr _ \<Rightarrow> False | _ \<Rightarrow> True)"

definition applyFieldMapping :: "json \<Rightarrow> (string \<times> string) list \<Rightarrow> error + json" where
  "applyFieldMapping doc fm =
     (if (fm \<noteq> [] \<and> is_primitive doc) \<or> doc = JNull then Inl TypeError
      else (let mapped = fold (\<lambda>(newField, oldField) mapped.
                                 (case get_property doc oldField of
                                    Some v \<Rightarrow> obj_set newField v mapped
                                  | None \<Rightarrow> mapped))
                              fm [];
                mapped = fold (\<lambda>(key, v) mapped.
                                 if key \<in> set (map snd fm) then mapped else obj_set key v mapped)
                              (own_entries doc) mapped
            in Inr (JObj mapped)))"

text \<open>\<open>{ ...doc, [field]: new Date().toISOString() }\<close>.\<close>

definition stamp :: "platform \<Rightarrow> string \<Rightarrow> json \<Rightarrow> json" where
  "stamp P field doc = JObj (obj_define field (JStr (now_iso P)) (own_entries doc))"

text \<open>The steps shared by \<open>convertContent\<close> and \<open>convertDocuments\<close>, in the order of the source.\<close>

definition conversion_steps :: "platform \<Rightarrow> conversion_options \<Rightarrow> json list \<Rightarrow> error + json list" where
  "conversion_steps P options documents =
     (let documents = (case conv_filter options of
                         Some f \<Rightarrow> filter f documents | None \<Rightarrow> documents);
          documents = (case conv_transform options of
                         Some t \<Rightarrow> map t documents | None \<Rightarrow> documents)
      in and_then (case fieldMapping options of
                     Some fm \<Rightarrow> map_throwing (\<lambda>doc. applyFieldMapping doc fm) documents
                   | None \<Rightarrow> Inr documents)
           (\<lambda>documents.
              Inr (case timestampField options of
                     None \<Rightarrow> documents
                   | Some field \<Rightarrow>
                       if field = [] then documents else map (stamp P field) documents)))"


definition convertDocuments :: "platform \<Rightarrow> json list \<Rightarrow> conversion_options \<Rightarrow> error + string" where
  "convertDocuments P documents options =
     and_then (getFormatter (targetFormat options)) (\<lambda>targetFormatter.
     and_then (conversion_steps P options documents) (\<lambda>processedDocs.
       formatter_serialize P targetFormatter (indent options) processedDocs))"

section \<open>The remote content store\<close>

text \<open>
  Modelled from the spec: the store behind \<open>GitHubAPIWrapper\<close> is an external service,
  and section 6 of the specification gives its contract. A path holds a content and a
  revision token (\<open>sha\<close>); \<open>getFile\<close> returns both, or nothing for a path that does
  not exist; \<open>createFile\<close> (a write without a token) fails when the path exists;
  \<open>updateFile\<close> fails unless the token given is the current one of the path; every
  successful write gives the path a fresh token; a request for a path listed in
  \<open>unreachable\<close> fails in transport. \<open>requests\<close> records every write request
  issued, in order, whether it succeeded or not.
\<close>

record github_file =
  file_content :: string
  file_sha :: "string option"

datatype write_request =
    CreateFile string string string
  | UpdateFile string string string "string option"

record remote =
  files :: "string \<Rightarrow> (string \<times> string) option"
  requests :: "write_request list"
  revision :: nat
  unreachable :: "string list"

definition fresh_sha :: "remote \<Rightarrow> string" where
  "fresh_sha r = CHR ''r'' # show_nat (revision r)"

definition getFile :: "remote \<Rightarrow> string \<Rightarrow> error + github_file option" where
  "getFile r path =
     (if path \<in> set (unreachable r) then Inl (GetFileFailed path)
      else Inr (case files r path of
                  None \<Rightarrow> None
                | Some (c, s) \<Rightarrow> Some \<lparr>file_content = c, file_sha = Some s\<rparr>))"

definition createFile :: "remote \<Rightarrow> string \<Rightarrow> string \<Rightarrow> string \<Rightarrow> error option \<times> remote" where
  "createFile r path content message =
     (let r = r\<lparr>requests := requests r @ [CreateFile path content message]\<rparr> in
      if path \<in> set (unreachable r) \<or> files r path \<noteq> None then (Some (CreateFileFailed path), r)
      else (None, r\<lparr>files := (files r)(path \<mapsto> (content, fresh_sha r)),
                     revision := revision r + 1\<rparr>))"

definition updateFile :: "remote \<Rightarrow> string \<Rightarrow> string \<Rightarrow> string \<Rightarrow> string option \<Rightarrow> error option \<times> remote" where
  "updateFile r path content message sha =
     (let r = r\<lparr>requests := requests r @ [UpdateFile path content message sha]\<rparr> in
      if path \<in> set (unreachable r) then (Some (UpdateFileFailed path), r)
      else if map_option snd (files r path) \<noteq> sha then (Some (UpdateFileFailed path), r)
      else (None, r\<lparr>files := (files r)(path \<mapsto> (content, fresh_sha r)),
                     revision := revision r + 1\<rparr>))"

section \<open>The transfer coordinator (TransactionEngine)\<close>

record TransactionState =
  sourcePath :: string
  destPath :: string
  sourceContent :: string
  destContent :: string
  sourceSha :: "string option"
  destSha :: "string option"

record transfer_options =
  predicate :: "json \<Rightarrow> bool"
  conversion :: "conversion_options option"
  transform :: "(json \<Rightarrow> json) option"

text \<open>Truthiness of an optional string: \<open>undefined\<close> and \<open>''\<close> are falsy.\<close>

definition truthy :: "string option \<Rightarrow> bool" where
  "truthy s = (case s of None \<Rightarrow> False | Some x \<Rightarrow> x \<noteq> [])"

definition commit_message :: "nat \<Rightarrow> string \<Rightarrow> string \<Rightarrow> string" where
  "commit_message movedCount src dst =
     ''Transfer: Moved '' @ show_nat movedCount @ '' documents from '' @ src @ '' to '' @ dst"

definition updateBothFiles :: "remote \<Rightarrow> TransactionState \<Rightarrow> string \<Rightarrow> error option \<times> remote" where
  "updateBothFiles r state message =
     (case updateFile r (destPath state) (destContent state) message (destSha state) of
        (Some e, r1) \<Rightarrow> (Some e, r1)
      | (None, r1) \<Rightarrow>
          updateFile r1 (sourcePath state) (sourceContent state) message (sourceSha state))"

definition atomicCommit :: "remote \<Rightarrow> TransactionState \<Rightarrow> nat \<Rightarrow> error option \<times> remote" where
  "atomicCommit r state movedCount =
     (let commitMessage = commit_message movedCount (sourcePath state) (destPath state);
          (res, r') =
            (if truthy (sourceSha state) \<and> truthy (destSha state) then
               updateBothFiles r state commitMessage
             else if truthy (sourceSha state) \<and> \<not> truthy (destSha state) then
               (case createFile r (destPath state) (destContent state) commitMessage of
                  (Some e, r1) \<Rightarrow> (Some e, r1)
                | (None, r1) \<Rightarrow>
                    updateFile r1 (sourcePath state) (sourceContent state) commitMessage
                      (sourceSha state))
             else if \<not> truthy (sourceSha state) then
               (Some (SourceDoesNotExist (sourcePath state)), r)
             else
               (case createFile r (sourcePath state) (sourceContent state)
                       (''Initialize '' @ sourcePath state) of
                  (Some e, r1) \<Rightarrow> (Some e, r1)
                | (None, r1) \<Rightarrow>
                    updateFile r1 (destPath state) (destContent state) commitMessage
                      (destSha state)))
      in (map_option TransferFailed res, r'))"

text \<open>
  \<open>parseFileContent\<close> takes one outcome of \<open>Promise.allSettled\<close>: \<open>Inl\<close> is a rejected
  read, \<open>Inr None\<close> a path that does not exist.
\<close>

definition parseFileContent :: "platform \<Rightarrow> error + github_file option \<Rightarrow> string \<Rightarrow> json list" where
  "parseFileContent P fileResult format =
     (case fileResult of
        Inl _ \<Rightarrow> []
      | Inr None \<Rightarrow> []
      | Inr (Some file) \<Rightarrow>
          if trim (file_content file) = [] then []
          else (case and_then (getFormatter format)
                       (\<lambda>formatter. formatter_parse P formatter (file_content file)) of
                  Inl _ \<Rightarrow> []
                | Inr docs \<Rightarrow> docs))"

definition serializeContent :: "platform \<Rightarrow> json list \<Rightarrow> string \<Rightarrow> error + string" where
  "serializeContent P docs format =
     and_then (getFormatter format) (\<lambda>formatter. formatter_serialize P formatter None docs)"

definition processTransfer :: "json list \<Rightarrow> (json \<Rightarrow> bool) \<Rightarrow> json list \<times> json list" where
  "processTransfer sourceDocs p =
     fold (\<lambda>doc (matching, remaining).
             if p doc then (matching @ [doc], remaining) else (matching, remaining @ [doc]))
          sourceDocs ([], [])"

definition mergeWithDestination ::
  "string \<Rightarrow> json list \<Rightarrow> json list \<Rightarrow> conversion_options \<Rightarrow> json list" where
  "mergeWithDestination dst destDocs newDocs options = destDocs @ newDocs"

definition captured_sha :: "error + github_file option \<Rightarrow> string option" where
  "captured_sha fileResult =
     (case fileResult of Inr (Some file) \<Rightarrow> file_sha file | _ \<Rightarrow> None)"

text \<open>
  \<open>executeAtomicTransfer\<close>, run with no other activity on the store between its two
  reads and its writes.
\<close>

definition executeAtomicTransfer ::
  "platform \<Rightarrow> remote \<Rightarrow> string \<Rightarrow> string \<Rightarrow> transfer_options \<Rightarrow> error option \<times> remote" where
  "executeAtomicTransfer P r src dst options =
     (let sourceFile = getFile r src;
          destFile = getFile r dst;
          sourceFormat' = detectFormat src;
          destFormat = detectFormat dst;
          sourceDocs = parseFileContent P sourceFile sourceFormat';
          destDocs = parseFileContent P destFile destFormat;
          (matching, remaining) = processTransfer sourceDocs (predicate options)
      in if length matching = 0 then (None, r)
         else
           (let processedMatching =
                  (case transform options of
                     Some t \<Rightarrow> map t matching | None \<Rightarrow> matching)
            in case conversion options of
                 Some conv \<Rightarrow>
                   (case convertDocuments P processedMatching
                           (conv\<lparr>sourceFormat := sourceFormat', targetFormat := destFormat\<rparr>) of
                      Inl e \<Rightarrow> (Some e, r)
                    | Inr convertedContent \<Rightarrow>
                        (let newDestDocs =
                               mergeWithDestination dst destDocs processedMatching
                                 (conv\<lparr>sourceFormat := destFormat, targetFormat := destFormat\<rparr>)
                         in case convertDocuments P newDestDocs
                                   (conv\<lparr>sourceFormat := destFormat, targetFormat := destFormat\<rparr>) of
                              Inl e \<Rightarrow> (Some e, r)
                            | Inr newDestContent \<Rightarrow>
                                (case convertDocuments P remaining
                                        (conv\<lparr>sourceFormat := sourceFormat',
                                              targetFormat := sourceFormat'\<rparr>) of
                                   Inl e \<Rightarrow> (Some e, r)
                                 | Inr newSourceContent \<Rightarrow>
                                     atomicCommit r
                                       \<lparr>sourcePath = src, destPath = dst,
                                        sourceContent = newSourceContent,
                                        destContent = newDestContent,
                                        sourceSha = captured_sha sourceFile,
                                        destSha = captured_sha destFile\<rparr>
                                       (length processedMatching))))
               | None \<Rightarrow>
                   (let newDestDocs = destDocs @ processedMatching in
                    case serializeContent P remaining sourceFormat' of
                      Inl e \<Rightarrow> (Some e, r)
                    | Inr newSourceContent \<Rightarrow>
                        (case serializeContent P newDestDocs destFormat of
                           Inl e \<Rightarrow> (Some e, r)
                         | Inr newDestContent \<Rightarrow>
                             atomicCommit r
                               \<lparr>sourcePath = src, destPath = dst,
                                sourceContent = newSourceContent,
                                destContent = newDestContent,
                                sourceSha = captured_sha sourceFile,
                                destSha = captured_sha destFile\<rparr>
                               (length processedMatching)))))"

text \<open>
  The commit stage of \<open>executeAtomicTransfer\<close>: the state it hands to
  \<open>atomicCommit\<close> and the number of moved documents, when it gets there.
  \<open>Inr None\<close>: it returned before, because no document matched; \<open>Inl e\<close>: a
  conversion or a serialization threw \<open>e\<close>. Lemma
  \<open>executeAtomicTransfer_commit_stage\<close> below shows that \<open>executeAtomicTransfer\<close>
  is \<open>atomicCommit\<close> applied to this state.
\<close>

definition commit_stage ::
  "platform \<Rightarrow> remote \<Rightarrow> string \<Rightarrow> string \<Rightarrow> transfer_options
     \<Rightarrow> error + (TransactionState \<times> nat) option" where
  "commit_stage P r src dst options =
     (let sourceFile = getFile r src;
          destFile = getFile r dst;
          sourceFormat' = detectFormat src;
          destFormat = detectFormat dst;
          sourceDocs = parseFileContent P sourceFile sourceFormat';
          destDocs = parseFileContent P destFile destFormat;
          (matching, remaining) = processTransfer sourceDocs (predicate options)
      in if length matching = 0 then Inr None
         else
           (let processedMatching =
                  (case transform options of
                     Some t \<Rightarrow> map t matching | None \<Rightarrow> matching)
            in case conversion options of
                 Some conv \<Rightarrow>
                   (case convertDocuments P processedMatching
                           (conv\<lparr>sourceFormat := sourceFormat', targetFormat := destFormat\<rparr>) of
                      Inl e \<Rightarrow> Inl e
                    | Inr convertedContent \<Rightarrow>
                        (let newDestDocs =
                               mergeWithDestination dst destDocs processedMatching
                                 (conv\<lparr>sourceFormat := destFormat, targetFormat := destFormat\<rparr>)
                         in case convertDocuments P newDestDocs
                                   (conv\<lparr>sourceFormat := destFormat, targetFormat := destFormat\<rparr>) of
                              Inl e \<Rightarrow> Inl e
                            | Inr newDestContent \<Rightarrow>
                                (case convertDocuments P remaining
                                        (conv\<lparr>sourceFormat := sourceFormat',
                                              targetFormat := sourceFormat'\<rparr>) of
                                   Inl e \<Rightarrow> Inl e
                                 | Inr newSourceContent \<Rightarrow>
                                     Inr (Some
                                       (\<lparr>sourcePath = src, destPath = dst,
                                         sourceContent = newSourceContent,
                                         destContent = newDestContent,
                                         sourceSha = captured_sha sourceFile,
                                         destSha = captured_sha destFile\<rparr>,
                                        length processedMatching)))))
               | None \<Rightarrow>
                   (let newDestDocs = destDocs @ processedMatching in
                    case serializeContent P remaining sourceFormat' of
                      Inl e \<Rightarrow> Inl e
                    | Inr newSourceContent \<Rightarrow>
                        (case serializeContent P newDestDocs destFormat of
                           Inl e \<Rightarrow> Inl e
                         | Inr newDestContent \<Rightarrow>
                             Inr (Some
                               (\<lparr>sourcePath = src, destPath = dst,
                                 sourceContent = newSourceContent,
                                 destContent = newDestContent,
                                 sourceSha = captured_sha sourceFile,
                                 destSha = captured_sha destFile\<rparr>,
                                length processedMatching))))))"

subsection \<open>The path-pair lock\<close>

text \<open>
  \<open>transfer\<close> tests and sets the lock before its first suspension point and deletes it
  in its \<open>finally\<close> block. \<open>transfer_begin\<close> is the part before the \<open>await\<close>,
  \<open>transfer_end\<close> the \<open>finally\<close> block; a second call issued while the first is
  suspended runs its \<open>transfer_begin\<close> between the two.
\<close>

type_synonym lock_table = "string \<Rightarrow> bool option"

definition lockKey :: "string \<Rightarrow> string \<Rightarrow> string" where
  "lockKey src dst = src @ ''-'' @ dst"

definition transfer_begin :: "lock_table \<Rightarrow> string \<Rightarrow> string \<Rightarrow> error + lock_table" where
  "transfer_begin transactionLock src dst =
     (if transactionLock (lockKey src dst) = Some True
      then Inl (TransactionInProgress (lockKey src dst))
      else Inr (transactionLock(lockKey src dst \<mapsto> True)))"

definition transfer_end :: "lock_table \<Rightarrow> string \<Rightarrow> string \<Rightarrow> lock_table" where
  "transfer_end transactionLock src dst = transactionLock(lockKey src dst := None)"

definition transfer ::
  "platform \<Rightarrow> lock_table \<times> remote \<Rightarrow> string \<Rightarrow> string \<Rightarrow> transfer_options
     \<Rightarrow> error option \<times> lock_table \<times> remote" where
  "transfer P st src dst options =
     (case transfer_begin (fst st) src dst of
        Inl e \<Rightarrow> (Some e, fst st, snd st)
      | Inr locked \<Rightarrow>
          (let (res, r') = executeAtomicTransfer P (snd st) src dst options
           in (res, transfer_end locked src dst, r')))"

subsection \<open>convertFormat\<close>


section \<open>The write queue (StorageManager)\<close>

text \<open>
  The tasks of one process are cooperative: a task runs until it awaits a request to the
  store, and only then may another task run. The queue is therefore modelled as a
  transition system whose events are the calls of \<open>enqueueWrite\<close> and
  \<open>flushWriteQueue\<close>, the completion of the read and of the write of the operation a
  drain loop is executing, the resumption of that loop after its \<open>await\<close>, and writes
  of other clients to the store. An event runs the synchronous code up to the next
  \<open>await\<close>.

  A queued closure is the record of what it captured, tagged with the number of the
  \<open>enqueueWrite\<close> call that made it. \<open>loops\<close> are the running activations of the
  \<open>while\<close> loop of \<open>processWriteQueue\<close>; \<open>settled\<close> is the outcome of the promise
  each call returned; \<open>submitted\<close> and \<open>started\<close> are history: the closures in the
  order they were pushed, and in the order their execution began.
\<close>

record queued_write =
  qw_path :: string
  qw_content :: string
  qw_message :: string
  qw_append :: bool

datatype settlement = Resolved | Rejected error

text \<open>
  The closure a loop is executing awaits its \<open>getFile\<close>, then awaits its
  \<open>updateFile\<close> or \<open>createFile\<close> (holding what it read), then has returned or
  thrown, and the loop that awaits it has not resumed yet.
\<close>

datatype write_phase =
    AwaitingRead
  | AwaitingWrite "github_file option"
  | Returned "error option"

record drain_loop =
  awaited_by :: nat
  current :: "nat \<times> queued_write"
  phase :: write_phase

record storage_manager =
  writeQueue :: "(nat \<times> queued_write) list"
  isProcessingQueue :: bool
  loops :: "drain_loop list"
  next_call :: nat
  settled :: "nat \<Rightarrow> settlement option"
  submitted :: "(nat \<times> queued_write) list"
  started :: "(nat \<times> queued_write) list"
  store :: remote

datatype event =
    EnqueueWrite queued_write
  | FlushWriteQueue
  | ReadCompletes nat
  | WriteCompletes nat
  | LoopResumes nat
  | ExternalWrite string string

definition new_manager :: "remote \<Rightarrow> storage_manager" where
  "new_manager r =
     \<lparr>writeQueue = [], isProcessingQueue = False, loops = [], next_call = 0,
      settled = (\<lambda>_. None), submitted = [], started = [], store = r\<rparr>"

text \<open>
  The head of the \<open>while\<close> loop, run for the activation awaited by call \<open>c\<close>: shift the
  next closure and call it (it runs up to its \<open>getFile\<close>), or leave the loop, clear
  the flag and resolve.
\<close>

definition loop_head :: "nat \<Rightarrow> storage_manager \<Rightarrow> storage_manager" where
  "loop_head c s =
     (case writeQueue s of
        [] \<Rightarrow> s\<lparr>isProcessingQueue := False, settled := (settled s)(c \<mapsto> Resolved)\<rparr>
      | w # rest \<Rightarrow>
          s\<lparr>writeQueue := rest,
            loops := loops s @ [\<lparr>awaited_by = c, current = w, phase = AwaitingRead\<rparr>],
            started := started s @ [w]\<rparr>)"

definition processWriteQueue :: "nat \<Rightarrow> storage_manager \<Rightarrow> storage_manager" where
  "processWriteQueue c s =
     (if isProcessingQueue s then s\<lparr>settled := (settled s)(c \<mapsto> Resolved)\<rparr>
      else loop_head c (s\<lparr>isProcessingQueue := True\<rparr>))"

definition enqueueWrite :: "queued_write \<Rightarrow> storage_manager \<Rightarrow> storage_manager" where
  "enqueueWrite w s =
     (let c = next_call s;
          s = s\<lparr>next_call := c + 1, writeQueue := writeQueue s @ [(c, w)],
                submitted := submitted s @ [(c, w)]\<rparr>
      in if \<not> isProcessingQueue s then processWriteQueue c s
         else s\<lparr>settled := (settled s)(c \<mapsto> Resolved)\<rparr>)"

definition flushWriteQueue :: "storage_manager \<Rightarrow> storage_manager" where
  "flushWriteQueue s =
     (let c = next_call s in processWriteQueue c (s\<lparr>next_call := c + 1\<rparr>))"

text \<open>The body of a queued closure after its read: one \<open>updateFile\<close> or \<open>createFile\<close>.\<close>

definition execute_write :: "remote \<Rightarrow> queued_write \<Rightarrow> github_file option \<Rightarrow> error option \<times> remote" where
  "execute_write r w existing =
     (case existing of
        Some file \<Rightarrow>
          if qw_append w then
            updateFile r (qw_path w) (file_content file @ qw_content w) (qw_message w) (file_sha file)
          else updateFile r (qw_path w) (qw_content w) (qw_message w) (file_sha file)
      | None \<Rightarrow> createFile r (qw_path w) (qw_content w) (qw_message w))"

definition remove_nth :: "nat \<Rightarrow> 'a list \<Rightarrow> 'a list" where
  "remove_nth i xs = take i xs @ drop (Suc i) xs"

definition read_completes :: "nat \<Rightarrow> storage_manager \<Rightarrow> storage_manager" where
  "read_completes i s =
     (if i < length (loops s) \<and> phase (loops s ! i) = AwaitingRead then
        (let l = loops s ! i;
             existing = (case getFile (store s) (qw_path (snd (current l))) of
                           Inl _ \<Rightarrow> None | Inr f \<Rightarrow> f)
         in s\<lparr>loops := (loops s)[i := l\<lparr>phase := AwaitingWrite existing\<rparr>]\<rparr>)
      else s)"

definition write_completes :: "nat \<Rightarrow> storage_manager \<Rightarrow> storage_manager" where
  "write_completes i s =
     (if i < length (loops s) then
        (let l = loops s ! i in
         case phase l of
           AwaitingWrite existing \<Rightarrow>
             (case execute_write (store s) (snd (current l)) existing of
                (res, r') \<Rightarrow> s\<lparr>store := r', loops := (loops s)[i := l\<lparr>phase := Returned res\<rparr>]\<rparr>)
         | _ \<Rightarrow> s)
      else s)"

text \<open>
  \<open>await writeOperation()\<close> resumes. If the closure threw, the loop is left by the
  exception: the flag is not cleared and the promise of the awaiting call is rejected.
  Otherwise the loop continues at its head.
\<close>

definition loop_resumes :: "nat \<Rightarrow> storage_manager \<Rightarrow> storage_manager" where
  "loop_resumes i s =
     (if i < length (loops s) then
        (let l = loops s ! i in
         case phase l of
           Returned (Some e) \<Rightarrow>
             s\<lparr>loops := remove_nth i (loops s),
               settled := (settled s)(awaited_by l \<mapsto> Rejected e)\<rparr>
         | Returned None \<Rightarrow> loop_head (awaited_by l) (s\<lparr>loops := remove_nth i (loops s)\<rparr>)
         | _ \<Rightarrow> s)
      else s)"

definition external_write :: "string \<Rightarrow> string \<Rightarrow> remote \<Rightarrow> remote" where
  "external_write path content r =
     r\<lparr>files := (files r)(path \<mapsto> (content, fresh_sha r)), revision := revision r + 1\<rparr>"

fun step :: "storage_manager \<Rightarrow> event \<Rightarrow> storage_manager" where
  "step s (EnqueueWrite w) = enqueueWrite w s"
| "step s FlushWriteQueue = flushWriteQueue s"
| "step s (ReadCompletes i) = read_completes i s"
| "step s (WriteCompletes i) = write_completes i s"
| "step s (LoopResumes i) = loop_resumes i s"
| "step s (ExternalWrite path content) = s\<lparr>store := external_write path content (store s)\<rparr>"

definition run :: "storage_manager \<Rightarrow> event list \<Rightarrow> storage_manager" where
  "run s evs = foldl step s evs"

text \<open>The path and the message of a write request, and of a queued closure.\<close>

fun request_key :: "write_request \<Rightarrow> string \<times> string" where
  "request_key (CreateFile path content message) = (path, message)"
| "request_key (UpdateFile path content message sha) = (path, message)"

definition write_key :: "queued_write \<Rightarrow> string \<times> string" where
  "write_key w = (qw_path w, qw_message w)"

text \<open>
  The invariant of the queue, for a manager whose store had \<open>n0\<close> logged requests when
  it was created: the closures started so far followed by the waiting ones are the
  submitted ones; at most one drain loop runs, and it executes the closure started last;
  the requests the store has received from the manager are those of the started
  closures, one each, in order, the closure being executed excepted while its request
  is unanswered.
\<close>

definition unanswered :: "drain_loop \<Rightarrow> bool" where
  "unanswered l = (case phase l of Returned _ \<Rightarrow> False | _ \<Rightarrow> True)"

definition fifo_invariant :: "nat \<Rightarrow> storage_manager \<Rightarrow> bool" where
  "fifo_invariant n0 s =
     (started s @ writeQueue s = submitted s
      \<and> length (loops s) \<le> 1
      \<and> (loops s = [] \<or> (isProcessingQueue s \<and> started s \<noteq> []
                           \<and> current (hd (loops s)) = last (started s)))
      \<and> n0 \<le> length (requests (store s))
      \<and> map request_key (drop n0 (requests (store s)))
          = map (write_key \<circ> snd)
              (take (length (started s) - length (filter unanswered (loops s))) (started s)))"

text \<open>While no drain is in progress nothing is waiting.\<close>

definition idle_invariant :: "storage_manager \<Rightarrow> bool" where
  "idle_invariant s = (isProcessingQueue s \<or> writeQueue s = [])"

text \<open>The flag says that a drain is in progress, and no drain loop is running.\<close>

definition stalled :: "storage_manager \<Rightarrow> bool" where
  "stalled s = (isProcessingQueue s \<and> loops s = [])"

section \<open>An executable platform\<close>

text \<open>
  To run the model on concrete inputs the platform parameters are instantiated:
  \<open>JSON.stringify\<close> and \<open>JSON.parse\<close> by an implementation of the JSON grammar on the
  values of type \<open>json\<close> (integers only), the YAML functions by a reader and writer of
  the JSON subset of YAML (flow style), the clock by a fixed instant.
\<close>

definition hex_digit :: "nat \<Rightarrow> char" where
  "hex_digit d = (if d < 10 then char_of (48 + d) else char_of (87 + d))"

definition quote_char :: "char \<Rightarrow> string" where
  "quote_char c =
     (if c = CHR 0x22 then [CHR 0x5C, CHR 0x22]
      else if c = CHR 0x5C then [CHR 0x5C, CHR 0x5C]
      else if c = CHR 0x08 then [CHR 0x5C, CHR ''b'']
      else if c = CHR 0x0C then [CHR 0x5C, CHR ''f'']
      else if c = CHR 0x0A then [CHR 0x5C, CHR ''n'']
      else if c = CHR 0x0D then [CHR 0x5C, CHR ''r'']
      else if c = CHR 0x09 then [CHR 0x5C, CHR ''t'']
      else if (of_char c :: nat) < 32
        then [CHR 0x5C, CHR ''u'', CHR ''0'', CHR ''0'',
              hex_digit ((of_char c :: nat) div 16), hex_digit ((of_char c :: nat) mod 16)]
      else [c])"

definition quote_string :: "string \<Rightarrow> string" where
  "quote_string s = [CHR 0x22] @ concat (map quote_char s) @ [CHR 0x22]"

fun stringify_at :: "nat \<Rightarrow> nat \<Rightarrow> json \<Rightarrow> string" where
  "stringify_at gap level JNull = ''null''"
| "stringify_at gap level (JBool b) = (if b then ''true'' else ''false'')"
| "stringify_at gap level (JNum n) = show_int n"
| "stringify_at gap level (JStr s) = quote_string s"
| "stringify_at gap level (JArr xs) =
     (if xs = [] then ''[]''
      else if gap = 0 then ''['' @ join '','' (map (stringify_at gap (level + 1)) xs) @ '']''
      else ''['' @ [CHR 0x0A] @ replicate (gap * (level + 1)) CHR '' ''
           @ join ('','' @ [CHR 0x0A] @ replicate (gap * (level + 1)) CHR '' '')
                  (map (stringify_at gap (level + 1)) xs)
           @ [CHR 0x0A] @ replicate (gap * level) CHR '' '' @ '']'')"
| "stringify_at gap level (JObj kvs) =
     (if kvs = [] then ''{}''
      else if gap = 0 then
        ''{'' @ join '','' (map (\<lambda>(k, v). quote_string k @ '':'' @ stringify_at gap (level + 1) v) kvs) @ ''}''
      else ''{'' @ [CHR 0x0A] @ replicate (gap * (level + 1)) CHR '' ''
           @ join ('','' @ [CHR 0x0A] @ replicate (gap * (level + 1)) CHR '' '')
                  (map (\<lambda>(k, v). quote_string k @ '': '' @ stringify_at gap (level + 1) v) kvs)
           @ [CHR 0x0A] @ replicate (gap * level) CHR '' '' @ ''}'')"

definition js_JSON_stringify :: "nat \<Rightarrow> json \<Rightarrow> string" where
  "js_JSON_stringify n v = stringify_at (min n 10) 0 v"


definition json_space :: "char \<Rightarrow> bool" where
  "json_space c = (c = CHR 0x20 \<or> c = CHR 0x09 \<or> c = CHR 0x0A \<or> c = CHR 0x0D)"

definition hex_value :: "char \<Rightarrow> nat option" where
  "hex_value c =
     (let n = (of_char c :: nat) in
      if 48 \<le> n \<and> n \<le> 57 then Some (n - 48)
      else if 97 \<le> n \<and> n \<le> 102 then Some (n - 87)
      else if 65 \<le> n \<and> n \<le> 70 then Some (n - 55)
      else None)"

fun read_string :: "string \<Rightarrow> (string \<times> string) option" where
  "read_string [] = None"
| "read_string (c # cs) =
     (if c = CHR 0x22 then Some ([], cs)
      else if c = CHR 0x5C then
        (case cs of
           [] \<Rightarrow> None
         | e # rest \<Rightarrow>
             (if e = CHR ''u'' then
                (case rest of
                   h1 # h2 # h3 # h4 # rest' \<Rightarrow>
                     (case (hex_value h1, hex_value h2, hex_value h3, hex_value h4) of
                        (Some a, Some b, Some c', Some d) \<Rightarrow>
                          (if a = 0 \<and> b = 0 then
                             map_option (\<lambda>(s, r). (char_of (16 * c' + d) # s, r)) (read_string rest')
                           else None)
                      | _ \<Rightarrow> None)
                 | _ \<Rightarrow> None)
              else
                (case (if e = CHR 0x22 then Some (CHR 0x22)
                       else if e = CHR 0x5C then Some (CHR 0x5C)
                       else if e = CHR ''/'' then Some (CHR ''/'')
                       else if e = CHR ''b'' then Some (CHR 0x08)
                       else if e = CHR ''f'' then Some (CHR 0x0C)
                       else if e = CHR ''n'' then Some (CHR 0x0A)
                       else if e = CHR ''r'' then Some (CHR 0x0D)
                       else if e = CHR ''t'' then Some (CHR 0x09)
                       else None) of
                   None \<Rightarrow> None
                 | Some d \<Rightarrow> map_option (\<lambda>(s, r). (d # s, r)) (read_string rest))))
      else if (of_char c :: nat) < 32 then None
      else map_option (\<lambda>(s, r). (c # s, r)) (read_string cs))"

text \<open>An integer literal; a fraction or an exponent is outside the model and is refused.\<close>

definition read_number :: "string \<Rightarrow> (json \<times> string) option" where
  "read_number s =
     (let neg = (s \<noteq> [] \<and> hd s = CHR ''-'');
          body = (if neg then tl s else s);
          ds = takeWhile is_digit body;
          rest = dropWhile is_digit body
      in if ds = [] \<or> (length ds > 1 \<and> hd ds = CHR ''0'') then None
         else if rest \<noteq> [] \<and> (hd rest = CHR ''.'' \<or> hd rest = CHR ''e'' \<or> hd rest = CHR ''E'') then None
         else Some (JNum (if neg then - int (digits_value ds) else int (digits_value ds)), rest))"

fun read_value :: "nat \<Rightarrow> string \<Rightarrow> (json \<times> string) option"
  and read_elements :: "nat \<Rightarrow> string \<Rightarrow> (json list \<times> string) option"
  and read_members :: "nat \<Rightarrow> string \<Rightarrow> ((string \<times> json) list \<times> string) option" where
  "read_value 0 s = None"
| "read_value (Suc n) s =
     (case dropWhile json_space s of
        [] \<Rightarrow> None
      | c # cs \<Rightarrow>
          (if c = CHR ''['' then
             (case dropWhile json_space cs of
                [] \<Rightarrow> None
              | d # ds \<Rightarrow>
                  if d = CHR '']'' then Some (JArr [], ds)
                  else map_option (\<lambda>(xs, r). (JArr xs, r)) (read_elements n cs))
           else if c = CHR ''{'' then
             (case dropWhile json_space cs of
                [] \<Rightarrow> None
              | d # ds \<Rightarrow>
                  if d = CHR ''}'' then Some (JObj [], ds)
                  else map_option (\<lambda>(kvs, r). (JObj (fold (\<lambda>(k, x). obj_define k x) kvs []), r))
                         (read_members n cs))
           else if c = CHR 0x22 then map_option (\<lambda>(str, r). (JStr str, r)) (read_string cs)
           else if take 4 (c # cs) = ''null'' then Some (JNull, drop 4 (c # cs))
           else if take 4 (c # cs) = ''true'' then Some (JBool True, drop 4 (c # cs))
           else if take 5 (c # cs) = ''false'' then Some (JBool False, drop 5 (c # cs))
           else read_number (c # cs)))"
| "read_elements 0 s = None"
| "read_elements (Suc n) s =
     (case read_value n s of
        None \<Rightarrow> None
      | Some (v, r) \<Rightarrow>
          (case dropWhile json_space r of
             [] \<Rightarrow> None
           | c # cs \<Rightarrow>
               if c = CHR '']'' then Some ([v], cs)
               else if c = CHR '','' then map_option (\<lambda>(vs, r'). (v # vs, r')) (read_elements n cs)
               else None))"
| "read_members 0 s = None"
| "read_members (Suc n) s =
     (case dropWhile json_space s of
        [] \<Rightarrow> None
      | q # cs \<Rightarrow>
          if q \<noteq> CHR 0x22 then None
          else (case read_string cs of
                  None \<Rightarrow> None
                | Some (k, r) \<Rightarrow>
                    (case dropWhile json_space r of
                       [] \<Rightarrow> None
                     | c # cs' \<Rightarrow>
                         if c \<noteq> CHR '':'' then None
                         else (case read_value n cs' of
                                 None \<Rightarrow> None
                               | Some (v, r') \<Rightarrow>
                                   (case dropWhile json_space r' of
                                      [] \<Rightarrow> None
                                    | e # es \<Rightarrow>
                                        if e = CHR ''}'' then Some ([(k, v)], es)
                                        else if e = CHR '','' then
                                          map_option (\<lambda>(kvs, r''). ((k, v) # kvs, r''))
                                            (read_members n es)
                                        else None)))))"

definition js_JSON_parse :: "string \<Rightarrow> string + json" where
  "js_JSON_parse s =
     (case read_value (2 * length s + 2) s of
        None \<Rightarrow> Inl ''SyntaxError''
      | Some (v, r) \<Rightarrow>
          if dropWhile json_space r = [] then Inr v else Inl ''SyntaxError'')"


definition sample_platform :: platform where
  "sample_platform =
     \<lparr>JSON_parse = js_JSON_parse,
      JSON_stringify = js_JSON_stringify,
      yaml_parse = js_JSON_parse,
      yaml_parseAllDocuments =
        (\<lambda>s. case js_JSON_parse s of Inl m \<Rightarrow> [([m], JNull)] | Inr v \<Rightarrow> [([], v)]),
      yaml_stringify = (\<lambda>n v. Inr (js_JSON_stringify 0 v @ [CHR 0x0A])),
      now_iso = ''2024-01-01T00:00:00.000Z''\<rparr>"

definition empty_store :: remote where
  "empty_store = \<lparr>files = (\<lambda>_. None), requests = [], revision = 0, unreachable = []\<rparr>"

section \<open>Scenarios\<close>

text \<open>Concrete stores, predicates and options on which the model is run below.\<close>

definition users_jsonl :: string where
  "users_jsonl =
     ''{\"id\":1,\"age\":30}'' @ [CHR 0x0A] @ ''{\"id\":2,\"age\":20}'' @ [CHR 0x0A]"

definition users_store :: remote where
  "users_store = empty_store\<lparr>files := (\<lambda>_. None)(''users.jsonl'' \<mapsto> (users_jsonl, ''s1''))\<rparr>"



definition age_over :: "int \<Rightarrow> json \<Rightarrow> bool" where
  "age_over n d = (case get_property d ''age'' of Some (JNum a) \<Rightarrow> a > n | _ \<Rightarrow> False)"

definition plain_options :: conversion_options where
  "plain_options =
     \<lparr>indent = None, timestampField = None, sourceFormat = ''json'', targetFormat = ''json'',
      fieldMapping = None, conv_filter = None, conv_transform = None\<rparr>"


definition rename_id :: conversion_options where
  "rename_id = plain_options\<lparr>fieldMapping := Some [(''user_id'', ''id'')]\<rparr>"

definition keep_older :: conversion_options where
  "keep_older = plain_options\<lparr>conv_filter := Some (age_over 25)\<rparr>"

definition write_a :: queued_write where
  "write_a =
     \<lparr>qw_path = ''a.json'', qw_content = ''A'', qw_message = ''Write document: a.json'',
      qw_append = False\<rparr>"

definition write_b :: queued_write where
  "write_b =
     \<lparr>qw_path = ''b.json'', qw_content = ''B'', qw_message = ''Write document: b.json'',
      qw_append = False\<rparr>"

definition b_store :: remote where
  "b_store = empty_store\<lparr>files := (\<lambda>_. None)(''b.json'' \<mapsto> (''old'', ''s1''))\<rparr>"

text \<open>
  Two callers: the first enqueues a write to \<open>a.json\<close>, which starts the drain; the
  second enqueues a write to \<open>b.json\<close> while the first is being executed. Another
  client writes \<open>b.json\<close> between the read and the write of the second operation.
\<close>

definition conflict_run :: "event list" where
  "conflict_run =
     [EnqueueWrite write_a, EnqueueWrite write_b, ReadCompletes 0, WriteCompletes 0,
      LoopResumes 0, ReadCompletes 0, ExternalWrite ''b.json'' ''other'', WriteCompletes 0,
      LoopResumes 0]"

definition write_to :: "string \<Rightarrow> queued_write" where
  "write_to path =
     \<lparr>qw_path = path, qw_content = ''{}'', qw_message = ''Write document: '' @ path,
      qw_append = False\<rparr>"

text \<open>
  A write to \<open>p4.json\<close> is being executed when writes to \<open>p1.json\<close>, \<open>p2.json\<close> and
  \<open>p3.json\<close> are enqueued; then every pending request completes.
\<close>

definition four_writes_run :: "event list" where
  "four_writes_run =
     [EnqueueWrite (write_to ''p4.json''), ReadCompletes 0,
      EnqueueWrite (write_to ''p1.json''), EnqueueWrite (write_to ''p2.json''),
      EnqueueWrite (write_to ''p3.json''),
      WriteCompletes 0, LoopResumes 0,
      ReadCompletes 0, WriteCompletes 0, LoopResumes 0,
      ReadCompletes 0, WriteCompletes 0, LoopResumes 0,
      ReadCompletes 0, WriteCompletes 0, LoopResumes 0]"

definition broken_store :: remote where
  "broken_store = empty_store\<lparr>files := (\<lambda>_. None)(''users.json'' \<mapsto> (''{\"id\":1'', ''s1''))\<rparr>"

definition bad_jsonl :: string where
  "bad_jsonl = ''{\"id\":1}'' @ [CHR 0x0A, CHR 0x0A] @ ''{\"id\":''"

definition alice :: json where
  "alice = JObj [(''id'', JNum 1), (''name'', JStr ''Alice'')]"

definition alice_row :: "(string \<times> json) list" where
  "alice_row = [(''id'', JStr ''1''), (''name'', JStr ''Smith, Alice'')]"

definition is_array :: "json \<Rightarrow> bool" where
  "is_array d = (case d of JArr _ \<Rightarrow> True | _ \<Rightarrow> False)"

text \<open>
  Documents the tabular codec reads back as written: at least one field, the names
  distinct and in property order (as the names of an object are), none of them
  \<open>__proto__\<close>, every name and value a string without quote, line feed or
  surrounding whitespace; a document with a single field has a non-empty name and
  value.
\<close>

definition plain_text :: "string \<Rightarrow> bool" where
  "plain_text v = (CHR 0x22 \<notin> set v \<and> CHR 0x0A \<notin> set v \<and> trim v = v)"

definition plain_field :: "string \<times> json \<Rightarrow> bool" where
  "plain_field kv = (plain_text (fst kv) \<and> (case snd kv of JStr s \<Rightarrow> plain_text s | _ \<Rightarrow> False))"

definition plain_document :: "(string \<times> json) list \<Rightarrow> bool" where
  "plain_document kvs =
     (kvs \<noteq> [] \<and> distinct (map fst kvs) \<and> property_ordered (map fst kvs)
      \<and> ''__proto__'' \<notin> set (map fst kvs) \<and> list_all plain_field kvs
      \<and> (length kvs > 1 \<or> (fst (hd kvs) \<noteq> [] \<and> js_toString (snd (hd kvs)) \<noteq> [])))"


section \<open>Properties\<close>

subsection \<open>Strings and lists\<close>





lemma dropWhile_all_iff: "(\<forall>x\<in>set (dropWhile P xs). P x) \<longleftrightarrow> (\<forall>x\<in>set xs. P x)"
proof
  assume a: "\<forall>x\<in>set (dropWhile P xs). P x"
  have "dropWhile P xs = []"
  proof (rule ccontr)
    assume n: "dropWhile P xs \<noteq> []"
    then have "\<not> P (hd (dropWhile P xs))" by (rule hd_dropWhile)
    moreover have "hd (dropWhile P xs) \<in> set (dropWhile P xs)" using n by simp
    ultimately show False using a by blast
  qed
  then show "\<forall>x\<in>set xs. P x" by (simp add: dropWhile_eq_Nil_conv)
next
  assume "\<forall>x\<in>set xs. P x"
  then show "\<forall>x\<in>set (dropWhile P xs). P x" by (auto dest: set_dropWhileD)
qed

lemma trim_empty_iff: "trim s = [] \<longleftrightarrow> (\<forall>c\<in>set s. js_whitespace c)"
  by (simp add: trim_def dropWhile_eq_Nil_conv dropWhile_all_iff)

lemma trim_Nil [simp]: "trim [] = []"
  by (simp add: trim_def)

lemma dropWhile_rev_prefix:
  "\<exists>t. xs = rev (dropWhile P (rev xs)) @ t"
proof -
  have "xs = rev (takeWhile P (rev xs) @ dropWhile P (rev xs))" by simp
  also have "\<dots> = rev (dropWhile P (rev xs)) @ rev (takeWhile P (rev xs))" by (rule rev_append)
  finally show ?thesis by (rule exI)
qed

lemma dropWhile_unchanged: "xs = [] \<or> \<not> P (hd xs) \<Longrightarrow> dropWhile P xs = xs"
  by (cases xs) auto

lemma trim_idem: "trim (trim s) = trim s"
proof -
  define a where "a = dropWhile js_whitespace s"
  define b where "b = dropWhile js_whitespace (rev a)"
  have t: "trim s = rev b" by (simp add: trim_def a_def b_def)
  have "rev b = [] \<or> \<not> js_whitespace (hd (rev b))"
  proof (cases "rev b")
    case Nil
    then show ?thesis by blast
  next
    case (Cons x xs)
    obtain u where u: "a = rev b @ u"
      using dropWhile_rev_prefix [of a js_whitespace] unfolding b_def by blast
    with Cons have "a \<noteq> []" and "hd a = x" by auto
    then have "\<not> js_whitespace x" using hd_dropWhile [of js_whitespace s] unfolding a_def by auto
    then show ?thesis using Cons by simp
  qed
  then have front: "dropWhile js_whitespace (rev b) = rev b" by (rule dropWhile_unchanged)
  have rear: "dropWhile js_whitespace b = b" unfolding b_def by (rule dropWhile_idem)
  have "trim (rev b) = rev (dropWhile js_whitespace (rev (rev b)))"
    unfolding trim_def front ..
  also have "\<dots> = rev b" using rear by simp
  finally show ?thesis using t by simp
qed

lemma split_on_append_sep:
  "sep \<notin> set s \<Longrightarrow> split_on sep (s @ sep # t) = s # split_on sep t"
  by (induction s) (auto simp: Let_def)

subsection \<open>Format detection\<close>





subsection \<open>Malformed input\<close>

lemma parse_jsonl_lines_first_failure:
  assumes "i < length ls"
      and "\<forall>j<i. \<exists>v. JSON_parse P (ls ! j) = Inr v"
      and "JSON_parse P (ls ! i) = Inl m"
  shows "parse_jsonl_lines P k ls = Inl (InvalidJSONL (k + i + 1) m)"
  using assms
proof (induction ls arbitrary: i k)
  case Nil
  then show ?case by simp
next
  case (Cons l ls)
  show ?case
  proof (cases i)
    case 0
    then show ?thesis using Cons.prems by simp
  next
    case (Suc i')
    from Cons.prems Suc have ok: "\<exists>v. JSON_parse P l = Inr v" by auto
    have "parse_jsonl_lines P (k + 1) ls = Inl (InvalidJSONL (k + 1 + i' + 1) m)"
    proof (rule Cons.IH)
      show "i' < length ls" using Cons.prems Suc by simp
      show "\<forall>j<i'. \<exists>v. JSON_parse P (ls ! j) = Inr v"
      proof (intro allI impI)
        fix j assume "j < i'"
        then have "Suc j < i" using Suc by simp
        with Cons.prems(2) have "\<exists>v. JSON_parse P ((l # ls) ! Suc j) = Inr v" by blast
        then show "\<exists>v. JSON_parse P (ls ! j) = Inr v" by simp
      qed
      show "JSON_parse P (ls ! i') = Inl m" using Cons.prems Suc by simp
    qed
    then show ?thesis using ok Suc by auto
  qed
qed

lemma parse_jsonl_lines_length:
  "parse_jsonl_lines P k ls = Inr docs \<Longrightarrow> length docs = length ls"
  by (induction ls arbitrary: k docs) (auto split: sum.splits)

lemma yaml_documents_first_error:
  assumes "\<forall>d\<in>set good. fst d = []"
  shows "map_throwing yaml_document_value (good @ (m # ms, v) # rest) = Inl (InvalidYAML m)"
  using assms by (induction good) (auto simp: yaml_document_value_def split: list.splits)

lemma CSVFormatter_parse_total: "\<exists>docs. CSVFormatter_parse content = Inr docs"
  by (simp add: CSVFormatter_parse_def Let_def)

lemma parseFileContent_swallows:
  assumes "getFormatter format = Inr f" "formatter_parse P f (file_content file) = Inl e"
  shows "parseFileContent P (Inr (Some file)) format = []"
  using assms by (simp add: parseFileContent_def and_then_def)

text \<open>
  C2 (amended). On content that is not blank: the array-or-scalar codec fails with
  \<open>InvalidJSON\<close> when \<open>JSON.parse\<close> fails; the line-delimited codec fails with
  \<open>InvalidJSONL\<close> carrying the 1-based index, among the non-blank lines, of the first
  line \<open>JSON.parse\<close> rejects, and when it succeeds it returns one document for each
  non-blank line; the YAML codec fails with \<open>InvalidYAML\<close> when the single-document
  parse fails and a document of the stream carries an error. The tabular codec never
  fails. The transfer coordinator does not propagate a parse failure: a side whose
  content fails to parse is read as the empty sequence.
\<close>

theorem malformed_input_handling:
  "(trim content \<noteq> [] \<longrightarrow> JSON_parse P content = Inl m \<longrightarrow>
      JSONFormatter_parse P content = Inl (InvalidJSON m))
   \<and> (trim content \<noteq> [] \<longrightarrow> i < length (nonblank_lines content) \<longrightarrow>
        (\<forall>j<i. \<exists>v. JSON_parse P (nonblank_lines content ! j) = Inr v) \<longrightarrow>
        JSON_parse P (nonblank_lines content ! i) = Inl m \<longrightarrow>
      JSONLFormatter_parse P content = Inl (InvalidJSONL (i + 1) m))
   \<and> (JSONLFormatter_parse P content = Inr docs \<longrightarrow> trim content \<noteq> [] \<longrightarrow>
      length docs = length (nonblank_lines content))
   \<and> (trim content \<noteq> [] \<longrightarrow> yaml_parse P content = Inl m \<longrightarrow>
        yaml_parseAllDocuments P content = good @ (m' # ms, v) # rest \<longrightarrow>
        (\<forall>d\<in>set good. fst d = []) \<longrightarrow>
      YAMLFormatter_parse P content = Inl (InvalidYAML m'))
   \<and> (\<exists>rows. CSVFormatter_parse content = Inr rows)
   \<and> (getFormatter format = Inr f \<longrightarrow> formatter_parse P f (file_content file) = Inl e \<longrightarrow>
      parseFileContent P (Inr (Some file)) format = [])"
proof (intro conjI impI)
  assume "trim content \<noteq> []" "JSON_parse P content = Inl m"
  then show "JSONFormatter_parse P content = Inl (InvalidJSON m)"
    by (simp add: JSONFormatter_parse_def)
next
  assume "trim content \<noteq> []" "i < length (nonblank_lines content)"
    "\<forall>j<i. \<exists>v. JSON_parse P (nonblank_lines content ! j) = Inr v"
    "JSON_parse P (nonblank_lines content ! i) = Inl m"
  then show "JSONLFormatter_parse P content = Inl (InvalidJSONL (i + 1) m)"
    using parse_jsonl_lines_first_failure [of i "nonblank_lines content" P m 0]
    by (simp add: JSONLFormatter_parse_def)
next
  assume "JSONLFormatter_parse P content = Inr docs" "trim content \<noteq> []"
  then show "length docs = length (nonblank_lines content)"
    using parse_jsonl_lines_length [of P 0 "nonblank_lines content" docs]
    by (simp add: JSONLFormatter_parse_def)
next
  assume "trim content \<noteq> []" "yaml_parse P content = Inl m"
    "yaml_parseAllDocuments P content = good @ (m' # ms, v) # rest" "\<forall>d\<in>set good. fst d = []"
  then show "YAMLFormatter_parse P content = Inl (InvalidYAML m')"
    by (simp add: YAMLFormatter_parse_def yaml_documents_first_error)
next
  show "\<exists>rows. CSVFormatter_parse content = Inr rows" by (rule CSVFormatter_parse_total)
next
  assume "getFormatter format = Inr f" "formatter_parse P f (file_content file) = Inl e"
  then show "parseFileContent P (Inr (Some file)) format = []" by (rule parseFileContent_swallows)
qed

theorem malformed_input_handling_witness:
  "JSONFormatter_parse sample_platform ''{\"id\":1'' = Inl (InvalidJSON ''SyntaxError'')
   \<and> JSONLFormatter_parse sample_platform bad_jsonl = Inl (InvalidJSONL (1 + 1) ''SyntaxError'')
   \<and> length [JObj [(''id'', JNum 1)], JObj [(''id'', JNum 2)]]
       = length (nonblank_lines (''{\"id\":1}'' @ [CHR 0x0A, CHR 0x0A] @ ''{\"id\":2}''))
   \<and> YAMLFormatter_parse sample_platform ''{\"id\":1'' = Inl (InvalidYAML ''SyntaxError'')
   \<and> parseFileContent sample_platform
        (Inr (Some \<lparr>file_content = ''{\"id\":1'', file_sha = Some ''s1''\<rparr>)) ''json'' = []"
proof -
  have a: "trim ''{\"id\":1'' \<noteq> []" "JSON_parse sample_platform ''{\"id\":1'' = Inl ''SyntaxError''"
    by code_simp+
  have b: "trim bad_jsonl \<noteq> []" "1 < length (nonblank_lines bad_jsonl)"
      "JSON_parse sample_platform (nonblank_lines bad_jsonl ! 1) = Inl ''SyntaxError''"
    by code_simp+
  have b0: "JSON_parse sample_platform (nonblank_lines bad_jsonl ! 0) = Inr (JObj [(''id'', JNum 1)])"
    by code_simp
  have b': "\<forall>j<(1::nat). \<exists>v. JSON_parse sample_platform (nonblank_lines bad_jsonl ! j) = Inr v"
    using b0 by simp
  have c: "JSONLFormatter_parse sample_platform (''{\"id\":1}'' @ [CHR 0x0A, CHR 0x0A] @ ''{\"id\":2}'')
             = Inr [JObj [(''id'', JNum 1)], JObj [(''id'', JNum 2)]]"
      "trim (''{\"id\":1}'' @ [CHR 0x0A, CHR 0x0A] @ ''{\"id\":2}'') \<noteq> []"
    by code_simp+
  have d: "yaml_parse sample_platform ''{\"id\":1'' = Inl ''SyntaxError''"
      "yaml_parseAllDocuments sample_platform ''{\"id\":1'' = [] @ (''SyntaxError'' # [], JNull) # []"
      "\<forall>d\<in>set ([] :: (string list \<times> json) list). fst d = []"
    by code_simp+
  have e: "getFormatter ''json'' = Inr JSONFormatter"
      "formatter_parse sample_platform JSONFormatter
         (file_content \<lparr>file_content = ''{\"id\":1'', file_sha = Some ''s1''\<rparr>) = Inl (InvalidJSON ''SyntaxError'')"
    by code_simp+
  note t1 = malformed_input_handling [of "''{\"id\":1''" sample_platform "''SyntaxError''"]
  note t2 = malformed_input_handling [of bad_jsonl sample_platform "''SyntaxError''" 1]
  note t3 = malformed_input_handling [of "''{\"id\":1}'' @ [CHR 0x0A, CHR 0x0A] @ ''{\"id\":2}''" sample_platform _ _
              "[JObj [(''id'', JNum 1)], JObj [(''id'', JNum 2)]]"]
  note t4 = malformed_input_handling [of "''{\"id\":1''" sample_platform "''SyntaxError''" _ _ "[]" "''SyntaxError''" "[]" JNull "[]"]
  note t5 = malformed_input_handling [of _ sample_platform _ _ _ _ _ _ _ _ "''json''" JSONFormatter
              "\<lparr>file_content = ''{\"id\":1'', file_sha = Some ''s1''\<rparr>" "InvalidJSON ''SyntaxError''"]
  show ?thesis
    using t1 [THEN conjunct1] a
      t2 [THEN conjunct2, THEN conjunct1] b b'
      t3 [THEN conjunct2, THEN conjunct2, THEN conjunct1] c
      t4 [THEN conjunct2, THEN conjunct2, THEN conjunct2, THEN conjunct1] d
      t5 [THEN conjunct2, THEN conjunct2, THEN conjunct2, THEN conjunct2, THEN conjunct2] e
    by blast
qed

text \<open>
  The claim as stated fails: the source of this transfer holds truncated JSON, the
  codec rejects it, yet the coordinator reads the side as empty and the transfer
  returns normally; and the tabular codec accepts a row with a surplus cell and a
  row with an unterminated quote, dropping the surplus cell.
\<close>

theorem transfer_swallows_parse_failure:
  "JSONFormatter_parse sample_platform ''{\"id\":1'' = Inl (InvalidJSON ''SyntaxError'')
   \<and> parseFileContent sample_platform (getFile broken_store ''users.json'') (detectFormat ''users.json'') = []
   \<and> fst (transfer sample_platform (\<lambda>_. None, broken_store) ''users.json'' ''out.json''
            \<lparr>predicate = (\<lambda>d. True), conversion = None, transform = None\<rparr>) = None
   \<and> CSVFormatter_parse (''id,name'' @ [CHR 0x0A] @ ''1,Alice,extra'' @ [CHR 0x0A] @ ''2,\"Bob'')
       = Inr [JObj [(''id'', JStr ''1''), (''name'', JStr ''Alice'')],
              JObj [(''id'', JStr ''2''), (''name'', JStr ''Bob'')]]"
  by code_simp


subsection \<open>Round trip of one document\<close>

lemma unique_in_order_fold:
  "distinct (seen @ xs) \<Longrightarrow>
   fold (\<lambda>x seen. if x \<in> set seen then seen else seen @ [x]) xs seen = seen @ xs"
  by (induction xs arbitrary: seen) auto

lemma unique_in_order_distinct: "distinct xs \<Longrightarrow> unique_in_order xs = xs"
  unfolding unique_in_order_def using unique_in_order_fold [of "[]" xs] by simp

lemma parseCSVLine_loop_unquoted:
  "CHR '','' \<notin> set f \<Longrightarrow> CHR 0x22 \<notin> set f \<Longrightarrow>
   parseCSVLine_loop (f @ t) result cur False = parseCSVLine_loop t result (cur @ f) False"
  by (induction f arbitrary: cur) auto

lemma parseCSVLine_loop_quoted:
  "CHR 0x22 \<notin> set f \<Longrightarrow>
   parseCSVLine_loop (f @ t) result cur True = parseCSVLine_loop t result (cur @ f) True"
  by (induction f arbitrary: cur) auto

lemma replace_quotes_none:
  "CHR 0x22 \<notin> set v \<Longrightarrow>
   concat (map (\<lambda>c. if c = CHR 0x22 then [CHR 0x22, CHR 0x22] else [c]) v) = v"
  by (induction v) auto

lemma parseCSVLine_loop_escapeCSV:
  assumes "CHR 0x22 \<notin> set v"
  shows "parseCSVLine_loop (escapeCSV v @ t) result cur False
         = parseCSVLine_loop t result (cur @ v) False"
proof (cases "CHR '','' \<in> set v \<or> CHR 0x0A \<in> set v")
  case False
  then have "escapeCSV v = v" using assms by (simp add: escapeCSV_def)
  then show ?thesis using False assms by (simp add: parseCSVLine_loop_unquoted)
next
  case True
  then have e: "escapeCSV v = CHR 0x22 # v @ [CHR 0x22]"
    using assms by (auto simp: escapeCSV_def replace_quotes_none)
  have "parseCSVLine_loop (CHR 0x22 # v @ CHR 0x22 # t) result cur False
        = parseCSVLine_loop (v @ CHR 0x22 # t) result cur True" by simp
  also have "\<dots> = parseCSVLine_loop (CHR 0x22 # t) result (cur @ v) True"
    using assms by (rule parseCSVLine_loop_quoted)
  also have "\<dots> = parseCSVLine_loop t result (cur @ v) False" by simp
  finally show ?thesis using e by simp
qed

lemma parseCSVLine_loop_join:
  assumes "\<forall>f\<in>set (f0 # fs). CHR 0x22 \<notin> set f"
  shows "parseCSVLine_loop (join '','' (map escapeCSV (f0 # fs))) result [] False = result @ f0 # fs"
  using assms
proof (induction fs arbitrary: f0 result)
  case Nil
  then show ?case using parseCSVLine_loop_escapeCSV [of f0 "[]" result "[]"] by simp
next
  case (Cons g gs)
  have "parseCSVLine_loop (join '','' (map escapeCSV (f0 # g # gs))) result [] False
        = parseCSVLine_loop (CHR '','' # join '','' (map escapeCSV (g # gs))) result f0 False"
    using Cons.prems
      parseCSVLine_loop_escapeCSV [of f0 "CHR '','' # join '','' (map escapeCSV (g # gs))" result "[]"]
    by simp
  also have "\<dots> = parseCSVLine_loop (join '','' (map escapeCSV (g # gs))) (result @ [f0]) [] False"
    by simp
  also have "\<dots> = (result @ [f0]) @ g # gs" using Cons.prems by (intro Cons.IH) auto
  finally show ?case by simp
qed

lemma obj_insert_last:
  "\<forall>k'\<in>set (map fst kvs). \<not> placed_before k k' \<Longrightarrow> obj_insert k v kvs = kvs @ [(k, v)]"
  by (induction kvs) auto

lemma obj_set_fresh:
  assumes "k \<notin> set (map fst kvs)" "k \<noteq> ''__proto__''"
      "\<forall>k'\<in>set (map fst kvs). \<not> placed_before k k'"
  shows "obj_set k v kvs = kvs @ [(k, v)]"
  using assms obj_insert_last [of kvs k v] by (simp add: obj_set_def obj_define_def)

lemma property_ordered_append:
  "property_ordered (xs @ ys) \<Longrightarrow> x \<in> set xs \<Longrightarrow> y \<in> set ys \<Longrightarrow> \<not> placed_before y x"
  by (induction xs) (auto simp: list_all_iff)

lemma csv_document_fold:
  assumes "distinct (map fst acc @ hs)" "m + length hs \<le> length vals"
      "property_ordered (map fst acc @ hs)" "''__proto__'' \<notin> set hs"
  shows "fold (\<lambda>(header, i) document.
                 obj_set header (JStr (if i < length vals then vals ! i else [])) document)
              (zip hs [m..<m + length hs]) acc
         = acc @ zip hs (map JStr (take (length hs) (drop m vals)))"
  using assms
proof (induction hs arbitrary: acc m)
  case Nil
  then show ?case by simp
next
  case (Cons h hs)
  have up: "[m..<m + length (h # hs)] = m # [Suc m..<Suc m + length hs]"
    by (simp add: upt_rec)
  have fresh: "h \<notin> set (map fst acc)" "h \<noteq> ''__proto__''" using Cons.prems by auto
  have "\<not> placed_before h x" if "x \<in> set (map fst acc)" for x
    using property_ordered_append [OF Cons.prems(3) that, of h] by simp
  then have last: "\<forall>k'\<in>set (map fst acc). \<not> placed_before h k'" by blast
  have d: "distinct (map fst (acc @ [(h, JStr (vals ! m))]) @ hs)" using Cons.prems by auto
  have po: "property_ordered (map fst (acc @ [(h, JStr (vals ! m))]) @ hs)"
    using Cons.prems(3) by simp
  have np: "''__proto__'' \<notin> set hs" using Cons.prems by simp
  have l: "Suc m + length hs \<le> length vals" "m < length vals" using Cons.prems by auto
  have dr: "take (length (h # hs)) (drop m vals) = vals ! m # take (length hs) (drop (Suc m) vals)"
    using l by (simp add: Cons_nth_drop_Suc [symmetric])
  show ?case
    unfolding up using Cons.IH [OF d l(1) po np] l dr
    by (simp add: obj_set_fresh [OF fresh last])
qed

lemma csv_document_plain:
  assumes "distinct hs" "length vals = length hs" "property_ordered hs" "''__proto__'' \<notin> set hs"
  shows "csv_document hs vals = JObj (zip hs (map JStr vals))"
  using csv_document_fold [of "[]" hs 0 vals] assms by (simp add: csv_document_def)

lemma set_escapeCSV: "set (escapeCSV v) \<subseteq> insert (CHR 0x22) (set v)"
  by (auto simp: escapeCSV_def split: if_splits)

lemma set_escapeCSV_sup: "set v \<subseteq> set (escapeCSV v)"
  by (auto simp: escapeCSV_def)

lemma set_join_subset: "set (join sep xs) \<subseteq> set sep \<union> \<Union> (set ` set xs)"
  by (induction sep xs rule: join.induct) auto

lemma set_join_sup: "\<Union> (set ` set xs) \<subseteq> set (join sep xs)"
  by (induction sep xs rule: join.induct) auto

lemma join_avoids:
  assumes "c \<notin> set sep" "\<forall>x\<in>set xs. c \<notin> set x"
  shows "c \<notin> set (join sep xs)"
  using set_join_subset [of sep xs] assms by auto

lemma csv_line_no_line_feed:
  assumes "\<forall>v\<in>set vs. CHR 0x0A \<notin> set v"
  shows "CHR 0x0A \<notin> set (join '','' (map escapeCSV vs))"
proof (rule join_avoids)
  show "CHR 0x0A \<notin> set '',''" by simp
  show "\<forall>x\<in>set (map escapeCSV vs). CHR 0x0A \<notin> set x"
    using assms set_escapeCSV by fastforce
qed

lemma csv_line_not_blank:
  assumes "vs \<noteq> []" "length vs > 1 \<or> hd vs \<noteq> []" "\<forall>v\<in>set vs. trim v = v"
  shows "trim (join '','' (map escapeCSV vs)) \<noteq> []"
proof (cases vs)
  case Nil
  then show ?thesis using assms by simp
next
  case (Cons a rest)
  show ?thesis
  proof (cases rest)
    case Nil
    with Cons assms have "trim a \<noteq> []" by auto
    then obtain c where c: "c \<in> set a" "\<not> js_whitespace c" by (auto simp: trim_empty_iff)
    then have "c \<in> set (escapeCSV a)" using set_escapeCSV_sup by blast
    then show ?thesis using c(2) Cons Nil by (auto simp: trim_empty_iff)
  next
    case (Cons b rest')
    have "CHR '','' \<in> set (join '','' (map escapeCSV vs))"
      using \<open>vs = a # rest\<close> Cons by simp
    moreover have "\<not> js_whitespace CHR '',''" by (simp add: js_whitespace_def)
    ultimately show ?thesis unfolding trim_empty_iff by blast
  qed
qed

lemma plain_field_parts:
  assumes "plain_field kv"
  shows "plain_text (fst kv)" "plain_text (js_toString (snd kv))" "JStr (js_toString (snd kv)) = snd kv"
  using assms by (auto simp: plain_field_def split: json.splits)

lemma csv_cell_own:
  assumes "distinct (map fst kvs)" "kv \<in> set kvs"
  shows "csv_cell (JObj kvs) (fst kv) = js_toString (snd kv)"
proof -
  have "map_of kvs (fst kv) = Some (snd kv)" using assms by (cases kv) simp
  then show ?thesis by (simp add: csv_cell_def get_property_def)
qed

lemma zip_fst_snd: "zip (map fst kvs) (map snd kvs) = kvs"
  by (induction kvs) auto

lemma CSV_roundtrip_plain:
  assumes "plain_document kvs"
  shows "and_then (CSVFormatter_serialize None [JObj kvs]) CSVFormatter_parse = Inr [JObj kvs]"
proof -
  define keys where "keys = map fst kvs"
  define vals where "vals = map (js_toString \<circ> snd) kvs"
  define hl where "hl = join '','' (map escapeCSV keys)"
  define rl where "rl = join '','' (map escapeCSV vals)"
  define nl where "nl = CHR 0x0A"
  from assms have ne: "kvs \<noteq> []" and dist: "distinct keys"
    and ord: "property_ordered keys" and np: "''__proto__'' \<notin> set keys"
    and pf: "\<forall>kv\<in>set kvs. plain_field kv"
    and single: "length kvs > 1 \<or> (fst (hd kvs) \<noteq> [] \<and> js_toString (snd (hd kvs)) \<noteq> [])"
    unfolding plain_document_def keys_def vals_def list_all_iff by blast+
  have pk: "\<forall>k\<in>set keys. plain_text k" using pf by (auto simp: keys_def plain_field_parts)
  have pv: "\<forall>v\<in>set vals. plain_text v" using pf by (auto simp: vals_def plain_field_parts)
  have hne: "trim hl \<noteq> []" unfolding hl_def
    using ne single pk by (intro csv_line_not_blank) (auto simp: keys_def plain_text_def hd_map)
  have rne: "trim rl \<noteq> []" unfolding rl_def
    using ne single pv by (intro csv_line_not_blank) (auto simp: vals_def plain_text_def hd_map)
  have cells: "map (\<lambda>header. escapeCSV (csv_cell (JObj kvs) header)) keys = map escapeCSV vals"
    unfolding keys_def vals_def map_map
  proof (rule map_cong [OF refl])
    fix kv assume kv: "kv \<in> set kvs"
    then have "csv_cell (JObj kvs) (fst kv) = js_toString (snd kv)"
      using dist csv_cell_own unfolding keys_def by blast
    then show "((\<lambda>header. escapeCSV (csv_cell (JObj kvs) header)) \<circ> fst) kv
                 = (escapeCSV \<circ> (js_toString \<circ> snd)) kv"
      by simp
  qed
  have ser: "CSVFormatter_serialize None [JObj kvs] = Inr (hl @ nl # rl @ [nl])"
    using dist cells
    by (simp add: CSVFormatter_serialize_def and_then_def object_keys_def keys_def [symmetric]
        unique_in_order_distinct hl_def rl_def nl_def)
  have nl_hl: "nl \<notin> set hl" unfolding hl_def nl_def
    using pk by (intro csv_line_no_line_feed) (auto simp: plain_text_def)
  have nl_rl: "nl \<notin> set rl" unfolding rl_def nl_def
    using pv by (intro csv_line_no_line_feed) (auto simp: plain_text_def)
  have sp: "split_on nl (hl @ nl # rl @ [nl]) = [hl, rl, []]"
    using nl_hl nl_rl by (simp add: split_on_append_sep)
  have lines: "nonblank_lines (hl @ nl # rl @ [nl]) = [hl, rl]"
    using sp hne rne by (simp add: nonblank_lines_def nl_def)
  have nonblank: "trim (hl @ nl # rl @ [nl]) \<noteq> []"
    using hne by (auto simp: trim_empty_iff)
  obtain k0 ks where keys_cons: "keys = k0 # ks" using ne by (cases keys) (auto simp: keys_def)
  obtain v0 vs where vals_cons: "vals = v0 # vs" using ne by (cases vals) (auto simp: vals_def)
  have "parseCSVLine_loop hl [] [] False = [] @ keys"
    unfolding hl_def keys_cons using pk keys_cons
    by (intro parseCSVLine_loop_join) (auto simp: plain_text_def)
  then have ph: "parseCSVLine hl = keys"
    using pk by (simp add: parseCSVLine_def map_idI plain_text_def)
  have "parseCSVLine_loop rl [] [] False = [] @ vals"
    unfolding rl_def vals_cons using pv vals_cons
    by (intro parseCSVLine_loop_join) (auto simp: plain_text_def)
  then have pr: "parseCSVLine rl = vals"
    using pv by (simp add: parseCSVLine_def map_idI plain_text_def)
  have js: "map JStr vals = map snd kvs"
    unfolding vals_def using pf by (simp add: plain_field_parts)
  have "csv_document keys vals = JObj (zip keys (map JStr vals))"
    using dist ord np by (intro csv_document_plain) (simp_all add: keys_def vals_def)
  then have "csv_document keys vals = JObj kvs"
    unfolding js keys_def by (simp only: zip_fst_snd)
  then have "CSVFormatter_parse (hl @ nl # rl @ [nl]) = Inr [JObj kvs]"
    using nonblank lines ph pr by (simp add: CSVFormatter_parse_def)
  then show ?thesis using ser by (simp add: and_then_def)
qed

lemma JSON_roundtrip:
  assumes "\<not> is_array d" "trim (JSON_stringify P 2 d) \<noteq> []"
      "JSON_parse P (JSON_stringify P 2 d) = Inr d"
  shows "JSONFormatter_serialize P None [d] = Inr (JSON_stringify P 2 d)"
    and "and_then (JSONFormatter_serialize P None [d]) (JSONFormatter_parse P) = Inr [d]"
  using assms
  by (auto simp: JSONFormatter_serialize_def JSONFormatter_parse_def and_then_def is_array_def
      split: json.splits)

lemma JSONL_roundtrip:
  assumes "CHR 0x0A \<notin> set (JSON_stringify P 0 d)" "trim (JSON_stringify P 0 d) \<noteq> []"
      "JSON_parse P (JSON_stringify P 0 d) = Inr d"
  shows "and_then (JSONLFormatter_serialize P None [d]) (JSONLFormatter_parse P) = Inr [d]"
proof -
  define line where "line = JSON_stringify P 0 d"
  have ser: "JSONLFormatter_serialize P None [d] = Inr (line @ [CHR 0x0A])"
    by (simp add: JSONLFormatter_serialize_def line_def)
  have sp: "split_on CHR 0x0A (line @ [CHR 0x0A]) = [line, []]"
    using assms(1) by (simp add: split_on_append_sep line_def)
  have lines: "nonblank_lines (line @ [CHR 0x0A]) = [line]"
    using sp assms(2) by (simp add: nonblank_lines_def line_def)
  have nonblank: "trim (line @ [CHR 0x0A]) \<noteq> []"
    using assms(2) by (auto simp: trim_empty_iff line_def)
  have "JSONLFormatter_parse P (line @ [CHR 0x0A]) = Inr [d]"
    using nonblank lines assms(3) by (simp add: JSONLFormatter_parse_def line_def)
  then show ?thesis using ser by (simp add: and_then_def)
qed

lemma YAML_roundtrip:
  assumes "\<not> is_array d" "yaml_stringify P 2 d = Inr s" "trim s \<noteq> []"
      "yaml_parse P (trim s) = Inr d"
  shows "and_then (YAMLFormatter_serialize P None [d]) (YAMLFormatter_parse P) = Inr [d]"
  using assms
  by (auto simp: YAMLFormatter_serialize_def YAMLFormatter_parse_def yaml_stringify_trimmed_def
      and_then_def is_array_def trim_idem split: json.splits)

text \<open>
  A column named \<open>__proto__\<close> is lost on reading: the assignment
  \<open>document['__proto__'] = 'x'\<close> adds no property to the new object.
\<close>

lemma csv_proto_column_dropped:
  "and_then (CSVFormatter_serialize None [JObj [(''__proto__'', JStr ''x'')]]) CSVFormatter_parse
     = Inr [JObj []]
   \<and> CSVFormatter_parse (''__proto__,a'' @ [CHR 0x0A] @ ''x,y'' @ [CHR 0x0A])
     = Inr [JObj [(''a'', JStr ''y'')]]"
  by code_simp

text \<open>
  The other limits of the tabular codec: a field is trimmed on reading; a row that is
  blank (a single empty value) is skipped, so the document is lost; a document without
  fields is written as two empty lines and read back as no document.
\<close>

lemma tabular_roundtrip_limits:
  "and_then (CSVFormatter_serialize None [JObj [(''a'', JStr '' x'')]]) CSVFormatter_parse
     = Inr [JObj [(''a'', JStr ''x'')]]
   \<and> and_then (CSVFormatter_serialize None [JObj [(''a'', JStr [])]]) CSVFormatter_parse = Inr []
   \<and> and_then (CSVFormatter_serialize None [JObj []]) CSVFormatter_parse = Inr []"
  by code_simp

text \<open>
  C5 (amended). Four statements, one for each codec, each with its provisos.

  Array-or-scalar codec: for a document \<open>d\<close> that is not an array, if the text
  \<open>JSON.stringify(d, null, 2)\<close> is not blank and \<open>JSON.parse\<close> reads it back as
  \<open>d\<close>, then \<open>[d]\<close> is written as that bare text and read back as \<open>[d]\<close>.

  Line-delimited codec: for every \<open>d\<close>, if the text \<open>JSON.stringify(d)\<close> has no
  line feed, is not blank, and \<open>JSON.parse\<close> reads it back as \<open>d\<close>, then \<open>[d]\<close>
  is read back as \<open>[d]\<close>.

  YAML codec: for a document \<open>d\<close> that is not an array, if \<open>yaml.stringify\<close>
  returns a text \<open>s\<close> for \<open>d\<close>, the trimmed \<open>s\<close> is not blank, and
  \<open>yaml.parse\<close> reads the trimmed \<open>s\<close> back as \<open>d\<close>, then \<open>[d]\<close> is read back
  as \<open>[d]\<close>.

  Tabular codec: \<open>[d]\<close> is read back as \<open>[d]\<close> for every object \<open>d\<close> with at
  least one field, whose names and values are all strings without quote, line feed or
  surrounding whitespace, and none of whose names is \<open>__proto__\<close> (a single field
  needs a non-empty name and value; the fields of \<open>d\<close> are listed in property order,
  as those of an object are). Every value is read back as a string.
\<close>

theorem single_document_roundtrip:
  "(\<not> is_array d \<longrightarrow> trim (JSON_stringify P 2 d) \<noteq> [] \<longrightarrow>
      JSON_parse P (JSON_stringify P 2 d) = Inr d \<longrightarrow>
      JSONFormatter_serialize P None [d] = Inr (JSON_stringify P 2 d)
      \<and> and_then (JSONFormatter_serialize P None [d]) (JSONFormatter_parse P) = Inr [d])
   \<and> (CHR 0x0A \<notin> set (JSON_stringify P 0 d) \<longrightarrow> trim (JSON_stringify P 0 d) \<noteq> [] \<longrightarrow>
      JSON_parse P (JSON_stringify P 0 d) = Inr d \<longrightarrow>
      and_then (JSONLFormatter_serialize P None [d]) (JSONLFormatter_parse P) = Inr [d])
   \<and> (\<not> is_array d \<longrightarrow> yaml_stringify P 2 d = Inr s \<longrightarrow> trim s \<noteq> [] \<longrightarrow>
      yaml_parse P (trim s) = Inr d \<longrightarrow>
      and_then (YAMLFormatter_serialize P None [d]) (YAMLFormatter_parse P) = Inr [d])
   \<and> (plain_document kvs \<longrightarrow>
      and_then (CSVFormatter_serialize None [JObj kvs]) CSVFormatter_parse = Inr [JObj kvs])"
  using JSON_roundtrip [of d P] JSONL_roundtrip [of P d] YAML_roundtrip [of d P s]
    CSV_roundtrip_plain [of kvs]
  by blast

theorem single_document_roundtrip_witness:
  "(JSONFormatter_serialize sample_platform None [alice] = Inr (JSON_stringify sample_platform 2 alice)
    \<and> and_then (JSONFormatter_serialize sample_platform None [alice]) (JSONFormatter_parse sample_platform)
        = Inr [alice])
   \<and> and_then (JSONLFormatter_serialize sample_platform None [alice]) (JSONLFormatter_parse sample_platform)
        = Inr [alice]
   \<and> and_then (YAMLFormatter_serialize sample_platform None [alice]) (YAMLFormatter_parse sample_platform)
        = Inr [alice]
   \<and> and_then (CSVFormatter_serialize None [JObj alice_row]) CSVFormatter_parse = Inr [JObj alice_row]"
proof -
  have j: "\<not> is_array alice" "trim (JSON_stringify sample_platform 2 alice) \<noteq> []"
      "JSON_parse sample_platform (JSON_stringify sample_platform 2 alice) = Inr alice"
    by code_simp+
  have l: "CHR 0x0A \<notin> set (JSON_stringify sample_platform 0 alice)"
      "trim (JSON_stringify sample_platform 0 alice) \<noteq> []"
      "JSON_parse sample_platform (JSON_stringify sample_platform 0 alice) = Inr alice"
    by code_simp+
  have y: "yaml_stringify sample_platform 2 alice = Inr (''{\"id\":1,\"name\":\"Alice\"}'' @ [CHR 0x0A])"
      "trim (''{\"id\":1,\"name\":\"Alice\"}'' @ [CHR 0x0A]) \<noteq> []"
      "yaml_parse sample_platform (trim (''{\"id\":1,\"name\":\"Alice\"}'' @ [CHR 0x0A])) = Inr alice"
    by code_simp+
  have c: "plain_document alice_row" by code_simp
  show ?thesis
    using single_document_roundtrip
            [of alice sample_platform "''{\"id\":1,\"name\":\"Alice\"}'' @ [CHR 0x0A]" alice_row]
      j l y c
    by blast
qed

text \<open>
  The claim as stated fails for the tabular codec: the number \<open>1\<close> comes back as the
  string \<open>"1"\<close>.
\<close>

theorem tabular_roundtrip_loses_types:
  "and_then (CSVFormatter_serialize None [JObj [(''id'', JNum 1)]]) CSVFormatter_parse
     = Inr [JObj [(''id'', JStr ''1'')]]
   \<and> \<not> same_documents [JObj [(''id'', JStr ''1'')]] [JObj [(''id'', JNum 1)]]"
  by code_simp


subsection \<open>Transfer: partition and the empty match\<close>

lemma processTransfer_fold:
  "fold (\<lambda>doc (matching, remaining).
             if p doc then (matching @ [doc], remaining) else (matching, remaining @ [doc]))
          docs (m, r) = (m @ filter p docs, r @ filter (\<lambda>d. \<not> p d) docs)"
  by (induction docs arbitrary: m r) auto

lemma processTransfer_eq: "processTransfer docs p = (filter p docs, filter (\<lambda>d. \<not> p d) docs)"
  unfolding processTransfer_def by (simp add: processTransfer_fold)

lemma executeAtomicTransfer_no_match:
  assumes "filter (predicate options) (parseFileContent P (getFile r src) (detectFormat src)) = []"
  shows "executeAtomicTransfer P r src dst options = (None, r)"
  using assms unfolding executeAtomicTransfer_def by (simp add: processTransfer_eq Let_def)

text \<open>
  C8. When the predicate matches none of the documents parsed from the source, a
  transfer leaves the store exactly as it was: no write request is issued, and every
  content and revision token is unchanged. If the pair is not locked the call returns
  normally, with the lock of the pair released.
\<close>

theorem transfer_without_match_writes_nothing:
  assumes "filter (predicate options) (parseFileContent P (getFile r src) (detectFormat src)) = []"
  shows "snd (snd (transfer P (locks, r) src dst options)) = r
       \<and> (if locks (lockKey src dst) = Some True
          then transfer P (locks, r) src dst options =
                 (Some (TransactionInProgress (lockKey src dst)), locks, r)
          else transfer P (locks, r) src dst options = (None, locks(lockKey src dst := None), r))"
  using executeAtomicTransfer_no_match [OF assms]
  by (simp add: transfer_def transfer_begin_def transfer_end_def)

theorem transfer_without_match_writes_nothing_witness:
  "filter (age_over 99)
     (parseFileContent sample_platform (getFile users_store ''users.jsonl'')
        (detectFormat ''users.jsonl'')) = []
   \<and> snd (snd (transfer sample_platform (\<lambda>_. None, users_store) ''users.jsonl'' ''archive.jsonl''
        \<lparr>predicate = age_over 99, conversion = None, transform = None\<rparr>)) = users_store
   \<and> fst (transfer sample_platform (\<lambda>_. None, users_store) ''users.jsonl'' ''archive.jsonl''
        \<lparr>predicate = age_over 99, conversion = None, transform = None\<rparr>) = None"
proof -
  have h: "filter (predicate \<lparr>predicate = age_over 99, conversion = None, transform = None\<rparr>)
             (parseFileContent sample_platform (getFile users_store ''users.jsonl'')
                (detectFormat ''users.jsonl'')) = []"
    by code_simp
  show ?thesis
    using h transfer_without_match_writes_nothing [OF h, of "\<lambda>_. None" "''archive.jsonl''"]
    by simp
qed

subsection \<open>Transfer with conversion options\<close>

text \<open>
  C1 (the code departs from the claim). The source holds \<open>{id:1,age:30}\<close> and
  \<open>{id:2,age:20}\<close>; the predicate \<open>age > 25\<close> leaves \<open>{id:2,age:20}\<close> behind. With a
  field mapping in the conversion options the source is written back with the field of
  the remaining document renamed; with a conversion filter the remaining document is
  dropped and the source is written back empty. Serializing the remaining document
  unchanged would give the third line.
\<close>

theorem transfer_conversion_rewrites_remaining:
  "snd (processTransfer
          (parseFileContent sample_platform (getFile users_store ''users.jsonl'') ''jsonl'')
          (age_over 25))
     = [JObj [(''id'', JNum 2), (''age'', JNum 20)]]
   \<and> map_option fst
       (files (snd (snd (transfer sample_platform (\<lambda>_. None, users_store)
                           ''users.jsonl'' ''adults.jsonl''
                           \<lparr>predicate = age_over 25, conversion = Some rename_id,
                            transform = None\<rparr>))) ''users.jsonl'')
     = Some (''{\"user_id\":2,\"age\":20}'' @ [CHR 0x0A])
   \<and> map_option fst
       (files (snd (snd (transfer sample_platform (\<lambda>_. None, users_store)
                           ''users.jsonl'' ''adults.jsonl''
                           \<lparr>predicate = age_over 25, conversion = Some keep_older,
                            transform = None\<rparr>))) ''users.jsonl'')
     = Some []
   \<and> serializeContent sample_platform [JObj [(''id'', JNum 2), (''age'', JNum 20)]] ''jsonl''
     = Inr (''{\"id\":2,\"age\":20}'' @ [CHR 0x0A])"
  by code_simp

subsection \<open>The commit shape\<close>

lemma atomicCommit_no_source_token:
  "\<not> truthy (sourceSha state) \<Longrightarrow>
   atomicCommit r state n = (Some (TransferFailed (SourceDoesNotExist (sourcePath state))), r)"
  unfolding atomicCommit_def by (simp add: Let_def)



lemma executeAtomicTransfer_commit_stage:
  "executeAtomicTransfer P r src dst options =
     (case commit_stage P r src dst options of
        Inl e \<Rightarrow> (Some e, r)
      | Inr None \<Rightarrow> (None, r)
      | Inr (Some (state, n)) \<Rightarrow> atomicCommit r state n)"
  unfolding executeAtomicTransfer_def commit_stage_def
  by (simp add: Let_def split: prod.splits option.splits sum.splits)




text \<open>
  A transfer whose source does not exist, or cannot be read, matches nothing and
  returns before the commit stage, whether the destination exists or not.
\<close>

lemma transfer_absent_source:
  assumes "files r src = None \<or> src \<in> set (unreachable r)"
  shows "commit_stage P r src dst options = Inr None"
    and "executeAtomicTransfer P r src dst options = (None, r)"
proof -
  have "parseFileContent P (getFile r src) (detectFormat src) = []"
    using assms by (auto simp: parseFileContent_def getFile_def)
  then show "commit_stage P r src dst options = Inr None"
    unfolding commit_stage_def by (simp add: processTransfer_eq Let_def)
  then show "executeAtomicTransfer P r src dst options = (None, r)"
    by (simp add: executeAtomicTransfer_commit_stage)
qed



subsection \<open>The path-pair lock\<close>

lemma transfer_begin_same_pair:
  "transfer_begin locks src dst = Inr locked \<Longrightarrow>
   transfer_begin locked src dst = Inl (TransactionInProgress (lockKey src dst))"
  by (auto simp: transfer_begin_def split: if_splits)

lemma transfer_end_frees:
  "transfer_begin (transfer_end locked src dst) src dst
     = Inr ((transfer_end locked src dst)(lockKey src dst \<mapsto> True))"
  by (simp add: transfer_begin_def transfer_end_def)

lemma transfer_releases_lock:
  "locks (lockKey src dst) \<noteq> Some True \<Longrightarrow>
   fst (snd (transfer P (locks, r) src dst options)) (lockKey src dst) = None"
  by (simp add: transfer_def transfer_begin_def transfer_end_def split: prod.splits)

lemma transfer_begin_other_key:
  assumes "lockKey src' dst' \<noteq> lockKey src dst"
      and "transfer_begin locks src dst = Inr locked"
  shows "transfer_begin locked src' dst' =
           (case transfer_begin locks src' dst' of
              Inl e \<Rightarrow> Inl e
            | Inr l \<Rightarrow> Inr (l(lockKey src dst \<mapsto> True)))"
  using assms by (auto simp: transfer_begin_def fun_upd_twist split: if_splits)

text \<open>
  C4 (the code departs from the claim). The lock table is keyed by the string
  \<open>sourcePath-destPath\<close>, not by the pair: the distinct pairs \<open>(a-b, c)\<close> and
  \<open>(a, b-c)\<close> share the key \<open>a-b-c\<close>, so the second transfer, issued while the first
  is in flight, is rejected for lock contention.
\<close>

theorem lock_key_collision:
  "(''a-b'', ''c'') \<noteq> (''a'', ''b-c'')
   \<and> and_then (transfer_begin (\<lambda>_. None) ''a-b'' ''c'')
        (\<lambda>locks. transfer_begin locks ''a'' ''b-c'')
     = Inl (TransactionInProgress ''a-b-c'')"
  by (simp add: and_then_def transfer_begin_def lockKey_def)

subsection \<open>The tabular codec\<close>

lemma csv_example:
  "CSVFormatter_parse (''id,name'' @ [CHR 0x0A] @ ''1,Alice'' @ [CHR 0x0A] @ ''2,\"B,ob\"'')
     = Inr [JObj [(''id'', JStr ''1''), (''name'', JStr ''Alice'')],
            JObj [(''id'', JStr ''2''), (''name'', JStr ''B,ob'')]]"
  by code_simp

text \<open>
  C7 (the code departs from the claim). \<open>parseCSVLine\<close> toggles its quote state on
  every quote character and never emits one, so the doubled quote that \<open>escapeCSV\<close>
  writes for \<open>x"y\<close> is read back as \<open>xy\<close>; and \<open>parse\<close> splits the content at every
  line feed before it looks at quotes, so the quoted field \<open>escapeCSV\<close> writes for a
  value with a line feed is read back as two rows.
\<close>

theorem parseCSVLine_drops_doubled_quote:
  "CSVFormatter_serialize None [JObj [(''a'', JStr ''x\"y'')]]
     = Inr (''a'' @ [CHR 0x0A] @ ''\"x\"\"y\"'' @ [CHR 0x0A])
   \<and> CSVFormatter_parse (''a'' @ [CHR 0x0A] @ ''\"x\"\"y\"'' @ [CHR 0x0A])
     = Inr [JObj [(''a'', JStr ''xy'')]]
   \<and> CSVFormatter_serialize None [JObj [(''a'', JStr (''x'' @ [CHR 0x0A] @ ''y''))]]
     = Inr (''a'' @ [CHR 0x0A] @ ''\"x'' @ [CHR 0x0A] @ ''y\"'' @ [CHR 0x0A])
   \<and> CSVFormatter_parse (''a'' @ [CHR 0x0A] @ ''\"x'' @ [CHR 0x0A] @ ''y\"'' @ [CHR 0x0A])
     = Inr [JObj [(''a'', JStr ''x'')], JObj [(''a'', JStr ''y'')]]"
  by code_simp

subsection \<open>The write queue\<close>

lemma fifo_invariant_new: "fifo_invariant (length (requests r)) (new_manager r)"
  by (simp add: fifo_invariant_def new_manager_def)

lemma fifo_invariant_loop_head:
  assumes "started s @ writeQueue s = submitted s" "loops s = []" "isProcessingQueue s"
      "n0 \<le> length (requests (store s))"
      "map request_key (drop n0 (requests (store s))) = map (write_key \<circ> snd) (started s)"
  shows "fifo_invariant n0 (loop_head c s)"
  using assms
  by (cases "writeQueue s") (auto simp: fifo_invariant_def loop_head_def unanswered_def)

lemma fifo_invariant_settle:
  "fifo_invariant n0 s \<Longrightarrow> fifo_invariant n0 (s\<lparr>settled := f\<rparr>)"
  by (simp add: fifo_invariant_def)

lemma fifo_invariant_processWriteQueue:
  assumes "fifo_invariant n0 s"
  shows "fifo_invariant n0 (processWriteQueue c s)"
proof (cases "isProcessingQueue s")
  case True
  then show ?thesis using assms by (simp add: processWriteQueue_def fifo_invariant_settle)
next
  case False
  with assms have l: "loops s = []" by (auto simp: fifo_invariant_def)
  have "fifo_invariant n0 (loop_head c (s\<lparr>isProcessingQueue := True\<rparr>))"
    using assms l by (intro fifo_invariant_loop_head) (auto simp: fifo_invariant_def)
  with False show ?thesis by (simp add: processWriteQueue_def)
qed

lemma fifo_invariant_push:
  assumes "fifo_invariant n0 s"
  shows "fifo_invariant n0
           (s\<lparr>next_call := k, writeQueue := writeQueue s @ [w], submitted := submitted s @ [w]\<rparr>)"
  using assms by (auto simp: fifo_invariant_def)

lemma fifo_invariant_enqueueWrite:
  assumes "fifo_invariant n0 s"
  shows "fifo_invariant n0 (enqueueWrite w s)"
proof -
  let ?s1 = "s\<lparr>next_call := next_call s + 1, writeQueue := writeQueue s @ [(next_call s, w)],
                submitted := submitted s @ [(next_call s, w)]\<rparr>"
  have i1: "fifo_invariant n0 ?s1" using assms by (rule fifo_invariant_push)
  have e: "enqueueWrite w s =
        (if \<not> isProcessingQueue ?s1 then processWriteQueue (next_call s) ?s1
         else ?s1\<lparr>settled := (settled ?s1)(next_call s \<mapsto> Resolved)\<rparr>)"
    by (simp add: enqueueWrite_def Let_def)
  show ?thesis
    unfolding e using i1 by (simp add: fifo_invariant_processWriteQueue fifo_invariant_settle)
qed

lemma fifo_invariant_flush:
  assumes "fifo_invariant n0 s"
  shows "fifo_invariant n0 (flushWriteQueue s)"
proof -
  have "fifo_invariant n0 (s\<lparr>next_call := next_call s + 1\<rparr>)"
    using assms by (simp add: fifo_invariant_def)
  then show ?thesis by (simp add: flushWriteQueue_def Let_def fifo_invariant_processWriteQueue)
qed

lemma single_loop:
  assumes "fifo_invariant n0 s" "i < length (loops s)"
  obtains l where "loops s = [l]" "i = 0"
  using assms by (cases "loops s") (auto simp: fifo_invariant_def)

lemma fifo_invariant_read:
  assumes "fifo_invariant n0 s"
  shows "fifo_invariant n0 (read_completes i s)"
proof (cases "i < length (loops s) \<and> phase (loops s ! i) = AwaitingRead")
  case False
  then show ?thesis using assms by (auto simp: read_completes_def)
next
  case True
  with assms obtain l where l: "loops s = [l]" "i = 0" by (auto elim: single_loop)
  then show ?thesis using assms True
    by (auto simp: read_completes_def fifo_invariant_def Let_def unanswered_def)
qed

lemma execute_write_requests:
  "\<exists>req. requests (snd (execute_write r w existing)) = requests r @ [req]
         \<and> request_key req = write_key w"
  by (auto simp: execute_write_def updateFile_def createFile_def write_key_def Let_def
      split: option.splits)

lemma take_butlast_last: "xs \<noteq> [] \<Longrightarrow> take (length xs - Suc 0) xs @ [last xs] = xs"
proof -
  assume "xs \<noteq> []"
  then have "butlast xs @ [last xs] = xs" by simp
  moreover have "butlast xs = take (length xs - Suc 0) xs" by (simp add: butlast_conv_take)
  ultimately show ?thesis by simp
qed

lemma fifo_invariant_write:
  assumes "fifo_invariant n0 s"
  shows "fifo_invariant n0 (write_completes i s)"
proof (cases "i < length (loops s)")
  case False
  then show ?thesis using assms by (simp add: write_completes_def)
next
  case True
  with assms obtain l where l: "loops s = [l]" "i = 0" by (auto elim: single_loop)
  show ?thesis
  proof (cases "phase l")
    case AwaitingRead
    then show ?thesis using assms l by (simp add: write_completes_def)
  next
    case (Returned res)
    then show ?thesis using assms l by (simp add: write_completes_def)
  next
    case (AwaitingWrite existing)
    obtain res r' where ex: "execute_write (store s) (snd (current l)) existing = (res, r')"
      by (cases "execute_write (store s) (snd (current l)) existing") auto
    from execute_write_requests [of "store s" "snd (current l)" existing] ex
    obtain req where req: "requests r' = requests (store s) @ [req]"
        "request_key req = write_key (snd (current l))" by auto
    from assms l AwaitingWrite have st: "started s \<noteq> []" "current l = last (started s)"
        "n0 \<le> length (requests (store s))" "isProcessingQueue s"
        "started s @ writeQueue s = submitted s"
        "map request_key (drop n0 (requests (store s)))
          = map (write_key \<circ> snd) (take (length (started s) - 1) (started s))"
      by (auto simp: fifo_invariant_def unanswered_def)
    have "map (write_key \<circ> snd) (take (length (started s) - 1) (started s))
            @ [write_key (snd (last (started s)))]
          = map (write_key \<circ> snd) (take (length (started s) - Suc 0) (started s) @ [last (started s)])"
      by simp
    also have "\<dots> = map (write_key \<circ> snd) (started s)"
      using st(1) take_butlast_last [of "started s"] by simp
    finally have logged: "map request_key (drop n0 (requests r')) = map (write_key \<circ> snd) (started s)"
      using req st by simp
    have "fifo_invariant n0 (s\<lparr>store := r', loops := (loops s)[i := l\<lparr>phase := Returned res\<rparr>]\<rparr>)"
      using st logged req l by (auto simp: fifo_invariant_def unanswered_def)
    then show ?thesis using l AwaitingWrite ex by (simp add: write_completes_def)
  qed
qed

lemma fifo_invariant_resume:
  assumes "fifo_invariant n0 s"
  shows "fifo_invariant n0 (loop_resumes i s)"
proof (cases "i < length (loops s)")
  case False
  then show ?thesis using assms by (simp add: loop_resumes_def)
next
  case True
  with assms obtain l where l: "loops s = [l]" "i = 0" by (auto elim: single_loop)
  have rm: "remove_nth i (loops s) = []" using l by (simp add: remove_nth_def)
  show ?thesis
  proof (cases "phase l")
    case AwaitingRead
    then show ?thesis using assms l by (simp add: loop_resumes_def)
  next
    case (AwaitingWrite existing)
    then show ?thesis using assms l by (simp add: loop_resumes_def)
  next
    case (Returned res)
    from assms l Returned have st: "n0 \<le> length (requests (store s))" "isProcessingQueue s"
        "started s @ writeQueue s = submitted s"
        "map request_key (drop n0 (requests (store s))) = map (write_key \<circ> snd) (started s)"
      by (auto simp: fifo_invariant_def unanswered_def)
    show ?thesis
    proof (cases res)
      case None
      have "fifo_invariant n0 (loop_head (awaited_by l) (s\<lparr>loops := remove_nth i (loops s)\<rparr>))"
        using st rm by (intro fifo_invariant_loop_head) auto
      then show ?thesis using l Returned None by (simp add: loop_resumes_def)
    next
      case (Some e)
      have "fifo_invariant n0
              (s\<lparr>loops := remove_nth i (loops s),
                 settled := (settled s)(awaited_by l \<mapsto> Rejected e)\<rparr>)"
        using st rm by (auto simp: fifo_invariant_def)
      then show ?thesis using l Returned Some by (simp add: loop_resumes_def)
    qed
  qed
qed

lemma fifo_invariant_step:
  assumes "fifo_invariant n0 s"
  shows "fifo_invariant n0 (step s ev)"
proof (cases ev)
  case (EnqueueWrite w)
  then show ?thesis using assms by (simp only: step.simps fifo_invariant_enqueueWrite)
next
  case FlushWriteQueue
  then show ?thesis using assms by (simp only: step.simps fifo_invariant_flush)
next
  case (ReadCompletes i)
  then show ?thesis using assms by (simp only: step.simps fifo_invariant_read)
next
  case (WriteCompletes i)
  then show ?thesis using assms by (simp only: step.simps fifo_invariant_write)
next
  case (LoopResumes i)
  then show ?thesis using assms by (simp only: step.simps fifo_invariant_resume)
next
  case (ExternalWrite path content)
  then show ?thesis using assms by (simp add: fifo_invariant_def external_write_def)
qed

lemma fifo_invariant_run:
  "fifo_invariant n0 s \<Longrightarrow> fifo_invariant n0 (run s evs)"
proof (induction evs arbitrary: s)
  case Nil
  then show ?case by (simp add: run_def)
next
  case (Cons ev evs)
  have "run s (ev # evs) = run (step s ev) evs" by (simp add: run_def)
  then show ?case using Cons.IH [OF fifo_invariant_step [OF Cons.prems]] by simp
qed

lemma idle_invariant_loop_head:
  "isProcessingQueue s \<or> writeQueue s = [] \<Longrightarrow> idle_invariant (loop_head c s)"
  by (cases "writeQueue s") (auto simp: idle_invariant_def loop_head_def)

lemma idle_invariant_processWriteQueue:
  "idle_invariant s \<Longrightarrow> idle_invariant (processWriteQueue c s)"
  by (cases "writeQueue s")
     (auto simp: idle_invariant_def processWriteQueue_def loop_head_def)

lemma idle_invariant_enqueueWrite: "idle_invariant (enqueueWrite w s)"
  by (auto simp: idle_invariant_def enqueueWrite_def processWriteQueue_def loop_head_def Let_def
      split: list.splits)

lemma idle_invariant_step:
  assumes "idle_invariant s"
  shows "idle_invariant (step s ev)"
proof (cases ev)
  case (EnqueueWrite w)
  then show ?thesis by (simp add: idle_invariant_enqueueWrite)
next
  case FlushWriteQueue
  have "idle_invariant (s\<lparr>next_call := next_call s + 1\<rparr>)"
    using assms by (simp add: idle_invariant_def)
  then show ?thesis
    using FlushWriteQueue by (simp add: flushWriteQueue_def Let_def idle_invariant_processWriteQueue)
next
  case (ReadCompletes i)
  then show ?thesis using assms by (simp add: idle_invariant_def read_completes_def Let_def)
next
  case (WriteCompletes i)
  then show ?thesis using assms
    by (auto simp: idle_invariant_def write_completes_def Let_def split: write_phase.splits prod.splits)
next
  case (LoopResumes i)
  show ?thesis
  proof (cases "i < length (loops s)")
    case False
    then show ?thesis using assms LoopResumes by (simp add: loop_resumes_def)
  next
    case True
    show ?thesis
    proof (cases "phase (loops s ! i)")
      case (Returned res)
      have "idle_invariant (loop_head c (s\<lparr>loops := ls\<rparr>))" for c ls
        using assms by (intro idle_invariant_loop_head) (simp add: idle_invariant_def)
      then show ?thesis using assms LoopResumes True Returned
        by (cases res) (simp_all add: loop_resumes_def Let_def idle_invariant_def)
    qed (use assms LoopResumes True in \<open>simp_all add: loop_resumes_def Let_def\<close>)
  qed
next
  case (ExternalWrite path content)
  then show ?thesis using assms by (simp add: idle_invariant_def)
qed

lemma idle_invariant_run: "idle_invariant s \<Longrightarrow> idle_invariant (run s evs)"
proof (induction evs arbitrary: s)
  case Nil
  then show ?case by (simp add: run_def)
next
  case (Cons ev evs)
  have "run s (ev # evs) = run (step s ev) evs" by (simp add: run_def)
  then show ?case using Cons.IH [OF idle_invariant_step [OF Cons.prems]] by simp
qed

lemma idle_invariant_new: "idle_invariant (new_manager r)"
  by (simp add: idle_invariant_def new_manager_def)

text \<open>
  The order of execution. Whatever calls, completions, resumptions and foreign writes
  occur, in whatever order: the closures whose execution has begun, followed by the
  closures still waiting, are exactly the submitted closures in submission order; at
  most one drain loop is running (so at most one closure is being executed); and the
  write requests the store has received from the manager are, in order, one for each
  started closure, with the path and message of that closure (the closure being
  executed excepted while its request is unanswered). Whenever the flag
  \<open>isProcessingQueue\<close> is clear, every submitted closure has been started.
\<close>

lemma write_queue_order:
  "started (run (new_manager r) evs) @ writeQueue (run (new_manager r) evs)
     = submitted (run (new_manager r) evs)
   \<and> length (loops (run (new_manager r) evs)) \<le> 1
   \<and> map request_key (drop (length (requests r)) (requests (store (run (new_manager r) evs))))
     = map (write_key \<circ> snd)
         (take (length (started (run (new_manager r) evs))
                - length (filter unanswered (loops (run (new_manager r) evs))))
            (started (run (new_manager r) evs)))
   \<and> (isProcessingQueue (run (new_manager r) evs)
      \<or> started (run (new_manager r) evs) = submitted (run (new_manager r) evs))"
proof -
  have f: "fifo_invariant (length (requests r)) (run (new_manager r) evs)"
    using fifo_invariant_new by (rule fifo_invariant_run)
  have i: "idle_invariant (run (new_manager r) evs)"
    using idle_invariant_new by (rule idle_invariant_run)
  from f have q: "started (run (new_manager r) evs) @ writeQueue (run (new_manager r) evs)
                = submitted (run (new_manager r) evs)"
    by (simp add: fifo_invariant_def)
  from i q have "isProcessingQueue (run (new_manager r) evs)
      \<or> started (run (new_manager r) evs) = submitted (run (new_manager r) evs)"
    by (auto simp: idle_invariant_def)
  then show ?thesis using f by (simp add: fifo_invariant_def)
qed


text \<open>Four writes, three of them enqueued while the first is being executed.\<close>

lemma write_queue_order_example:
  "(map request_key (requests (store (run (new_manager empty_store) four_writes_run)))
      = [(''p4.json'', ''Write document: p4.json''), (''p1.json'', ''Write document: p1.json''),
         (''p2.json'', ''Write document: p2.json''), (''p3.json'', ''Write document: p3.json'')]
    \<and> writeQueue (run (new_manager empty_store) four_writes_run) = []
    \<and> loops (run (new_manager empty_store) four_writes_run) = []
    \<and> isProcessingQueue (run (new_manager empty_store) four_writes_run) = False)
   \<and> (started (run (new_manager empty_store) four_writes_run)
        @ writeQueue (run (new_manager empty_store) four_writes_run)
       = submitted (run (new_manager empty_store) four_writes_run)
     \<and> length (loops (run (new_manager empty_store) four_writes_run)) \<le> 1
     \<and> map request_key
         (drop (length (requests empty_store))
            (requests (store (run (new_manager empty_store) four_writes_run))))
       = map (write_key \<circ> snd)
           (take (length (started (run (new_manager empty_store) four_writes_run))
                  - length (filter unanswered (loops (run (new_manager empty_store) four_writes_run))))
              (started (run (new_manager empty_store) four_writes_run)))
     \<and> (isProcessingQueue (run (new_manager empty_store) four_writes_run)
        \<or> started (run (new_manager empty_store) four_writes_run)
            = submitted (run (new_manager empty_store) four_writes_run)))"
proof -
  have a: "map request_key (requests (store (run (new_manager empty_store) four_writes_run)))
      = [(''p4.json'', ''Write document: p4.json''), (''p1.json'', ''Write document: p1.json''),
         (''p2.json'', ''Write document: p2.json''), (''p3.json'', ''Write document: p3.json'')]
    \<and> writeQueue (run (new_manager empty_store) four_writes_run) = []
    \<and> loops (run (new_manager empty_store) four_writes_run) = []
    \<and> isProcessingQueue (run (new_manager empty_store) four_writes_run) = False"
    by code_simp
  show ?thesis by (rule conjI [OF a write_queue_order])
qed

text \<open>
  Once a drain loop has been left by an exception, the manager is stalled: the flag is
  set and no loop is running. No event changes that; no closure is started any more and
  the store receives no further request from the manager, while the queue only grows.
\<close>

lemma stalled_step:
  assumes "stalled s"
  shows "stalled (step s ev) \<and> started (step s ev) = started s
       \<and> requests (store (step s ev)) = requests (store s)
       \<and> set (writeQueue s) \<subseteq> set (writeQueue (step s ev))"
  using assms
  by (cases ev)
     (auto simp: stalled_def enqueueWrite_def flushWriteQueue_def processWriteQueue_def
        read_completes_def write_completes_def loop_resumes_def external_write_def Let_def)

lemma stalled_run:
  assumes "stalled s"
  shows "stalled (run s evs) \<and> started (run s evs) = started s
       \<and> requests (store (run s evs)) = requests (store s)
       \<and> set (writeQueue s) \<subseteq> set (writeQueue (run s evs))"
  using assms
proof (induction evs arbitrary: s)
  case Nil
  then show ?case by (simp add: run_def)
next
  case (Cons ev evs)
  have r: "run s (ev # evs) = run (step s ev) evs" by (simp add: run_def)
  from stalled_step [OF Cons.prems, of ev] have st: "stalled (step s ev)"
    and a: "started (step s ev) = started s"
    and b: "requests (store (step s ev)) = requests (store s)"
    and c: "set (writeQueue s) \<subseteq> set (writeQueue (step s ev))" by blast+
  from Cons.IH [OF st] a b c show ?case unfolding r by auto
qed

lemma conflict_run_end:
  "isProcessingQueue (run (new_manager b_store) conflict_run)
   \<and> loops (run (new_manager b_store) conflict_run) = []
   \<and> writeQueue (run (new_manager b_store) conflict_run) = []
   \<and> next_call (run (new_manager b_store) conflict_run) = 2
   \<and> started (run (new_manager b_store) conflict_run) = [(0, write_a), (1, write_b)]
   \<and> map request_key (requests (store (run (new_manager b_store) conflict_run)))
       = [(''a.json'', ''Write document: a.json''), (''b.json'', ''Write document: b.json'')]"
  by code_simp

text \<open>
  C6 (the code departs from the claim). The order is as claimed: closures are started
  in submission order, one at a time (lemma \<open>write_queue_order\<close>). But a submitted
  write is not always executed. When a write fails, the exception leaves the loop of
  \<open>processWriteQueue\<close> before \<open>isProcessingQueue\<close> is cleared, and from then on no
  call starts a drain. In the run \<open>conflict_run\<close> the write to \<open>b.json\<close> fails on a
  revision mismatch. Any write \<open>w\<close> enqueued after it is submitted, stays in the
  queue and is never started, and the store never receives a request for it, whatever
  events \<open>evs\<close> follow.
\<close>

theorem write_after_failed_write_never_executes:
  "started (run (new_manager b_store) (conflict_run @ EnqueueWrite w # evs))
     = [(0, write_a), (1, write_b)]
   \<and> (2, w) \<in> set (submitted (run (new_manager b_store) (conflict_run @ [EnqueueWrite w])))
   \<and> (2, w) \<in> set (writeQueue (run (new_manager b_store) (conflict_run @ EnqueueWrite w # evs)))
   \<and> map request_key
        (requests (store (run (new_manager b_store) (conflict_run @ EnqueueWrite w # evs))))
       = [(''a.json'', ''Write document: a.json''), (''b.json'', ''Write document: b.json'')]"
proof -
  define s1 where "s1 = run (new_manager b_store) conflict_run"
  define s2 where "s2 = step s1 (EnqueueWrite w)"
  note e = conflict_run_end [folded s1_def]
  have st1: "stalled s1" using e by (simp add: stalled_def)
  have st2: "stalled s2" and a2: "started s2 = started s1"
    and b2: "requests (store s2) = requests (store s1)"
    using stalled_step [OF st1, of "EnqueueWrite w"] unfolding s2_def by blast+
  have q2: "(2, w) \<in> set (writeQueue s2)" "(2, w) \<in> set (submitted s2)"
    using e unfolding s2_def by (simp_all add: enqueueWrite_def Let_def)
  have r: "run (new_manager b_store) (conflict_run @ EnqueueWrite w # evs) = run s2 evs"
    by (simp add: run_def s1_def s2_def)
  have r1: "run (new_manager b_store) (conflict_run @ [EnqueueWrite w]) = s2"
    by (simp add: run_def s1_def s2_def)
  from stalled_run [OF st2, of evs] show ?thesis
    unfolding r r1 using a2 b2 q2 e by auto
qed

text \<open>
  C9 (the code departs from the claim). The second caller enqueues while the drain
  started by the first is running: its promise resolves at once, before its write is
  even started. When that write later fails on a revision mismatch, the failure
  rejects the promise of the first caller, whose own write had succeeded. The flag
  \<open>isProcessingQueue\<close> then stays set: a write enqueued afterwards resolves and is
  never started.
\<close>

theorem queued_write_failure_reaches_wrong_caller:
  "settled (run (new_manager b_store) (take 2 conflict_run)) 1 = Some Resolved
   \<and> settled (run (new_manager b_store) (take 2 conflict_run)) 0 = None
   \<and> started (run (new_manager b_store) (take 2 conflict_run)) = [(0, write_a)]
   \<and> settled (run (new_manager b_store) conflict_run) 1 = Some Resolved
   \<and> settled (run (new_manager b_store) conflict_run) 0
       = Some (Rejected (UpdateFileFailed ''b.json''))
   \<and> map_option fst (files (store (run (new_manager b_store) conflict_run)) ''a.json'') = Some ''A''
   \<and> map_option fst (files (store (run (new_manager b_store) conflict_run)) ''b.json'')
       = Some ''other''
   \<and> isProcessingQueue (run (new_manager b_store) conflict_run)
   \<and> started (run (new_manager b_store)
                 (conflict_run @ [EnqueueWrite write_a, FlushWriteQueue, LoopResumes 0]))
       = [(0, write_a), (1, write_b)]
   \<and> settled (run (new_manager b_store)
                 (conflict_run @ [EnqueueWrite write_a, FlushWriteQueue, LoopResumes 0])) 2
       = Some Resolved"
  by code_simp

end
